theory Spec2Isabelle
  imports Main "HOL-Library.Word" "HOL-Library.Multiset" "HOL-Library.AList"
begin

section \<open>Witness exchange: codec and paged request dispatcher\<close>

text \<open>
  A shallow embedding of the witness codec (package \<open>stateless\<close>: \<open>EncodeCompressed\<close>,
  \<open>DecodeCompressed\<close> and their metrics) and of the paged witness request dispatcher
  (package \<open>eth\<close>: \<open>RequestWitnesses\<close>, \<open>receiveWitnessPage\<close>, \<open>reconstructWitness\<close>,
  \<open>buildWitnessRequests\<close>, \<open>doWitnessRequest\<close>, \<open>ethWitRequest.Close\<close>).

  Bytes are \<open>8 word\<close>, Go's \<open>uint64\<close> and \<open>int64\<close> are \<open>64 word\<close> (read with \<open>unat\<close> and
  \<open>sint\<close>), Go's \<open>int\<close> is the 64-bit signed integer of the supported platforms. Every error
  return of the source is a value of type \<open>error\<close>.
\<close>

type_synonym byte = "8 word"
type_synonym bytes = "byte list"

datatype error =
    ErrEmptyData
  | ErrGzipLevel
  | ErrGunzip
  | ErrRLP
  | ErrWriter
  | ErrUnexpectedResponseType
  | ErrPeerRequest

subsection \<open>Witness codec\<close>

text \<open>
  The fields of \<open>Witness\<close> that the codec reads and writes: \<open>context\<close>, \<open>Headers\<close> and the
  key set of the map \<open>State\<close>. The header type is left open (\<open>'h\<close> stands for a
  \<open>*types.Header\<close>); a state entry is the byte string of a Go \<open>string\<close>.
\<close>

record 'h Witness =
  wcontext :: 'h
  Headers :: "'h list"
  State :: "bytes set"

record 'h extWitness =
  extContext :: 'h
  extHeaders :: "'h list"
  extState :: "bytes list"

record CompressionConfig =
  Enabled :: bool
  Threshold :: int
  CompressionLevel :: int
  UseDeduplication :: bool

definition compressionThreshold :: int where
  "compressionThreshold = 1 * 1024 * 1024"

text \<open>\<open>gzip.BestSpeed\<close> is 1, \<open>gzip.HuffmanOnly\<close> is -2 and \<open>gzip.BestCompression\<close> is 9.\<close>

definition DefaultCompressionConfig :: CompressionConfig where
  "DefaultCompressionConfig =
     \<lparr>Enabled = True, Threshold = compressionThreshold, CompressionLevel = 1,
      UseDeduplication = True\<rparr>"

text \<open>
  The registered counters and gauges. Modelled from the spec: the \<open>metrics\<close> package is
  not part of the sources at hand; a counter or gauge holds an \<open>int64\<close>, \<open>Inc n\<close> adds \<open>n\<close>
  to it, \<open>Update v\<close> stores \<open>v\<close> and \<open>Clear\<close> stores zero (metrics are switched on, as the
  tests do in \<open>init\<close>). The two timers measure wall-clock time and are left out.
\<close>

record metrics =
  compressionCount :: "64 word"
  uncompressedCount :: "64 word"
  decompressionCount :: "64 word"
  compressionRatio :: "64 word"
  totalOriginalSize :: "64 word"
  totalCompressedSize :: "64 word"
  spaceSavedBytes :: "64 word"

definition resetMetrics :: "metrics \<Rightarrow> metrics" where
  "resetMetrics m =
     m\<lparr>compressionRatio := 0, compressionCount := 0, uncompressedCount := 0,
       totalOriginalSize := 0, totalCompressedSize := 0, spaceSavedBytes := 0,
       decompressionCount := 0\<rparr>"

definition zeroMetrics :: metrics where
  "zeroMetrics =
     \<lparr>compressionCount = 0, uncompressedCount = 0, decompressionCount = 0,
      compressionRatio = 0, totalOriginalSize = 0, totalCompressedSize = 0,
      spaceSavedBytes = 0\<rparr>"

text \<open>The integer entries of the map returned by \<open>CompressionStats\<close>.\<close>

record stats =
  compression_count :: "64 word"
  uncompressed_count :: "64 word"
  total_witnesses :: "64 word"
  total_original_size :: "64 word"
  total_compressed_size :: "64 word"
  space_saved_bytes :: "64 word"
  total_compression_size :: "64 word"
  decompression_count :: "64 word"
  total_decompression_size :: "64 word"

definition CompressionStats :: "metrics \<Rightarrow> stats" where
  "CompressionStats m =
     \<lparr>compression_count = compressionCount m,
      uncompressed_count = uncompressedCount m,
      total_witnesses = compressionCount m + uncompressedCount m,
      total_original_size = totalOriginalSize m,
      total_compressed_size = totalCompressedSize m,
      space_saved_bytes = spaceSavedBytes m,
      total_compression_size = totalCompressedSize m,
      decompression_count = decompressionCount m,
      total_decompression_size = totalCompressedSize m\<rparr>"

text \<open>
  What the codec takes from outside the sources at hand, as parameters:
  \<^item> \<open>rlpEncode\<close>, \<open>rlpDecode\<close>: \<open>rlp.Encode\<close> and \<open>rlp.DecodeBytes\<close> on an \<open>extWitness\<close>;
  \<^item> \<open>deflate level data\<close>: the bytes a gzip writer of an accepted level leaves in its
    buffer after \<open>Write\<close> and \<open>Close\<close> (writing to a \<open>bytes.Buffer\<close> does not fail);
  \<^item> \<open>gunzip\<close>: \<open>gzip.NewReader\<close> followed by \<open>io.Copy\<close>;
  \<^item> \<open>mapOrder\<close>: the order in which \<open>range\<close> visits the keys of the map \<open>State\<close>;
  \<^item> \<open>ratioPercent c n\<close>: the floating point expression
    \<open>int64(float64(c) / float64(n) * 100)\<close>.
\<close>

record 'h codec_env =
  rlpEncode :: "'h extWitness \<Rightarrow> error + bytes"
  rlpDecode :: "bytes \<Rightarrow> error + 'h extWitness"
  deflate :: "int \<Rightarrow> bytes \<Rightarrow> bytes"
  gunzip :: "bytes \<Rightarrow> error + bytes"
  mapOrder :: "bytes set \<Rightarrow> bytes list"
  ratioPercent :: "nat \<Rightarrow> nat \<Rightarrow> 64 word"

text \<open>
  Modelled from the spec: \<open>Optimize\<close> is defined beside \<open>Witness\<close>, outside the sources at
  hand; it ``removes empty-string state entries'' from the witness it is called on.
\<close>

definition Optimize :: "'h Witness \<Rightarrow> 'h Witness" where
  "Optimize w = w\<lparr>State := State w - {[]}\<rparr>"

definition toExtWitness :: "'h codec_env \<Rightarrow> 'h Witness \<Rightarrow> 'h extWitness" where
  "toExtWitness env w =
     \<lparr>extContext = wcontext w, extHeaders = Headers w, extState = mapOrder env (State w)\<rparr>"

definition fromExtWitness :: "'h Witness \<Rightarrow> 'h extWitness \<Rightarrow> 'h Witness" where
  "fromExtWitness w ext =
     w\<lparr>wcontext := extContext ext, Headers := extHeaders ext, State := set (extState ext)\<rparr>"

text \<open>
  \<open>EncodeRLP\<close> writes into the buffer it is given and changes the receiver when
  deduplication is on: it returns the encoding (or the error) and the receiver as the
  call leaves it.
\<close>

definition EncodeRLP ::
  "'h codec_env \<Rightarrow> CompressionConfig \<Rightarrow> 'h Witness \<Rightarrow> (error + bytes) \<times> 'h Witness" where
  "EncodeRLP env cfg w =
     (let w' = (if UseDeduplication cfg then Optimize w else w)
      in (rlpEncode env (toExtWitness env w'), w'))"

text \<open>
  \<open>gzip.NewWriterLevel\<close> refuses a level below \<open>HuffmanOnly\<close> or above \<open>BestCompression\<close>;
  \<open>Write\<close> and \<open>Close\<close> on a buffer then succeed.
\<close>

definition gzipCompress :: "'h codec_env \<Rightarrow> int \<Rightarrow> bytes \<Rightarrow> error + bytes" where
  "gzipCompress env level rlpData =
     (if level < - 2 \<or> 9 < level then Inl ErrGzipLevel
      else Inr (deflate env level rlpData))"

text \<open>
  An \<open>io.Writer\<close> is a state \<open>'s\<close> with a \<open>Write\<close> that fails or returns the new state;
  \<open>bufferWrite\<close> is the \<open>bytes.Buffer\<close> the callers pass.
\<close>

type_synonym 's writer = "'s \<Rightarrow> bytes \<Rightarrow> error + 's"

definition bufferWrite :: "bytes writer" where
  "bufferWrite buf p = Inr (buf @ p)"

definition writeMarked ::
  "'s writer \<Rightarrow> 's \<Rightarrow> byte \<Rightarrow> bytes \<Rightarrow> error option \<times> 's" where
  "writeMarked wrWrite wr marker payload =
     (case wrWrite wr [marker] of
        Inl e \<Rightarrow> (Some e, wr)
      | Inr wr1 \<Rightarrow>
          (case wrWrite wr1 payload of
             Inl e \<Rightarrow> (Some e, wr1)
           | Inr wr2 \<Rightarrow> (None, wr2)))"

text \<open>
  \<open>EncodeCompressed\<close>: the result is the returned error (\<open>None\<close> for \<open>nil\<close>), the writer,
  the metrics and the receiver as the call leaves them.
\<close>

definition EncodeCompressed ::
  "'h codec_env \<Rightarrow> CompressionConfig \<Rightarrow> 's writer \<Rightarrow> metrics \<Rightarrow> 's \<Rightarrow> 'h Witness \<Rightarrow>
   error option \<times> 's \<times> metrics \<times> 'h Witness" where
  "EncodeCompressed env cfg wrWrite m wr w =
     (case EncodeRLP env cfg w of
        (Inl e, w') \<Rightarrow> (Some e, wr, m, w')
      | (Inr rlpData, w') \<Rightarrow>
          (let originalSize = length rlpData;
               m1 = m\<lparr>totalOriginalSize := totalOriginalSize m + of_nat originalSize\<rparr>;
               uncompressed =
                 (let m2 = m1\<lparr>uncompressedCount := uncompressedCount m1 + 1,
                              totalCompressedSize := totalCompressedSize m1 + of_nat originalSize\<rparr>;
                      (r, wr') = writeMarked wrWrite wr 0 rlpData
                  in (r, wr', m2, w'))
           in if Enabled cfg \<and> int (length rlpData) > Threshold cfg then
                (case gzipCompress env (CompressionLevel cfg) rlpData of
                   Inl e \<Rightarrow> (Some e, wr, m1, w')
                 | Inr compressedData \<Rightarrow>
                     if length compressedData < length rlpData then
                       (let m2 = m1\<lparr>compressionCount := compressionCount m1 + 1,
                                    totalCompressedSize :=
                                      totalCompressedSize m1 + of_nat (length compressedData),
                                    compressionRatio :=
                                      ratioPercent env (length compressedData) originalSize,
                                    spaceSavedBytes :=
                                      spaceSavedBytes m1 +
                                      (of_nat originalSize - of_nat (length compressedData))\<rparr>;
                            (r, wr') = writeMarked wrWrite wr 1 compressedData
                        in (r, wr', m2, w'))
                     else uncompressed)
              else uncompressed))"

text \<open>
  \<open>DecodeCompressed\<close>: the result is the returned error, the receiver and the metrics as
  the call leaves them.
\<close>

definition DecodeCompressed ::
  "'h codec_env \<Rightarrow> metrics \<Rightarrow> 'h Witness \<Rightarrow> bytes \<Rightarrow> error option \<times> 'h Witness \<times> metrics" where
  "DecodeCompressed env m w data =
     (case data of
        [] \<Rightarrow> (Some ErrEmptyData, w, m)
      | marker # witnessData \<Rightarrow>
          (let compressed = (marker = 1)
           in if compressed then
                (case gunzip env witnessData of
                   Inl e \<Rightarrow> (Some e, w, m)
                 | Inr rlpData \<Rightarrow>
                     (let m1 = m\<lparr>decompressionCount := decompressionCount m + 1\<rparr>
                      in case rlpDecode env rlpData of
                           Inl e \<Rightarrow> (Some e, w, m1)
                         | Inr ext \<Rightarrow> (None, fromExtWitness w ext, m1)))
              else
                (case rlpDecode env witnessData of
                   Inl e \<Rightarrow> (Some e, w, m)
                 | Inr ext \<Rightarrow> (None, fromExtWitness w ext, m))))"

subsection \<open>An instance of the codec parameters\<close>

text \<open>
  A small instance of the parameters on which the codec can be run: headers are single
  bytes, the serialisation frames every field with a one-byte length, the compressor is
  a run-length code, and map keys are visited in the order of a fixed key universe.
  It is only used to evaluate the model at concrete inputs.
\<close>

fun unframe :: "bytes \<Rightarrow> bytes list option" where
  "unframe [] = Some []"
| "unframe (n # rest) =
     (if length rest < unat n then None
      else map_option ((#) (take (unat n) rest)) (unframe (drop (unat n) rest)))"

definition frameEncode :: "byte extWitness \<Rightarrow> error + bytes" where
  "frameEncode ext =
     Inr (extContext ext # of_nat (length (extHeaders ext)) # extHeaders ext @
          concat (map (\<lambda>node. of_nat (length node) # node) (extState ext)))"

fun frameDecode :: "bytes \<Rightarrow> error + byte extWitness" where
  "frameDecode (c # n # rest) =
     (if length rest < unat n then Inl ErrRLP
      else case unframe (drop (unat n) rest) of
             None \<Rightarrow> Inl ErrRLP
           | Some nodes \<Rightarrow>
               Inr \<lparr>extContext = c, extHeaders = take (unat n) rest, extState = nodes\<rparr>)"
| "frameDecode _ = Inl ErrRLP"

fun runLengths :: "bytes \<Rightarrow> bytes" where
  "runLengths [] = []"
| "runLengths (x # xs) =
     (case runLengths xs of
        n # y # rest \<Rightarrow>
          if y = x \<and> n \<noteq> 255 then (n + 1) # y # rest else 1 # x # n # y # rest
      | _ \<Rightarrow> [1, x])"

fun expandRuns :: "bytes \<Rightarrow> bytes" where
  "expandRuns (n # x # rest) = replicate (unat n) x @ expandRuns rest"
| "expandRuns _ = []"

definition sampleEnv :: "byte codec_env" where
  "sampleEnv =
     \<lparr>rlpEncode = frameEncode,
      rlpDecode = frameDecode,
      deflate = (\<lambda>level. runLengths),
      gunzip = (\<lambda>c. if even (length c) then Inr (expandRuns c) else Inl ErrGunzip),
      mapOrder = (\<lambda>S. filter (\<lambda>k. k \<in> S) [[], [0, 0, 0, 0, 0, 0], [7]]),
      ratioPercent = (\<lambda>c n. of_nat (c * 100 div n))\<rparr>"

text \<open>Sample witnesses and configurations for the instance.\<close>

definition sampleWitness :: "byte Witness" where
  "sampleWitness = \<lparr>wcontext = 0, Headers = [], State = {[0, 0, 0, 0, 0, 0]}\<rparr>"

definition sampleWitnessEmptyEntry :: "byte Witness" where
  "sampleWitnessEmptyEntry = \<lparr>wcontext = 0, Headers = [], State = {[], [7]}\<rparr>"

definition zeroWitness :: "byte Witness" where
  "zeroWitness = \<lparr>wcontext = 0, Headers = [], State = {}\<rparr>"

definition lowThresholdConfig :: CompressionConfig where
  "lowThresholdConfig =
     \<lparr>Enabled = True, Threshold = 4, CompressionLevel = 6, UseDeduplication = True\<rparr>"

definition badLevelConfig :: CompressionConfig where
  "badLevelConfig =
     \<lparr>Enabled = True, Threshold = 4, CompressionLevel = 10, UseDeduplication = True\<rparr>"

subsection \<open>Sequences of codec calls\<close>

text \<open>
  A sequence of \<open>EncodeCompressed\<close> calls, each with the configuration in force, its
  writer and its witness; the metrics are threaded through.
\<close>

fun encodeCalls ::
  "'h codec_env \<Rightarrow> metrics \<Rightarrow> (CompressionConfig \<times> 's writer \<times> 's \<times> 'h Witness) list \<Rightarrow> metrics"
  where
  "encodeCalls env m [] = m"
| "encodeCalls env m ((cfg, wrWrite, wr, w) # rest) =
     (case EncodeCompressed env cfg wrWrite m wr w of
        (err, wr', m', w') \<Rightarrow> encodeCalls env m' rest)"

text \<open>
  A sequence of round trips as the tests run them: encode into an empty buffer, then
  decode the buffer into the receiver \<open>r\<close>.
\<close>

fun roundTrips ::
  "'h codec_env \<Rightarrow> 'h Witness \<Rightarrow> metrics \<Rightarrow> (CompressionConfig \<times> 'h Witness) list \<Rightarrow> metrics"
  where
  "roundTrips env r m [] = m"
| "roundTrips env r m ((cfg, w) # rest) =
     (case EncodeCompressed env cfg bufferWrite m [] w of
        (err, out, m1, w1) \<Rightarrow>
          (case DecodeCompressed env m1 r out of
             (err2, w2, m2) \<Rightarrow> roundTrips env r m2 rest))"

text \<open>
  A call triggers compression when it takes the branch that writes marker \<open>0x01\<close>: the
  encoding succeeds, compression is enabled, the encoding is longer than the threshold
  and the gzip output is shorter than the encoding.
\<close>

definition triggersCompression :: "'h codec_env \<Rightarrow> CompressionConfig \<Rightarrow> 'h Witness \<Rightarrow> bool" where
  "triggersCompression env cfg w =
     (case fst (EncodeRLP env cfg w) of
        Inl e \<Rightarrow> False
      | Inr rlpData \<Rightarrow>
          Enabled cfg \<and> int (length rlpData) > Threshold cfg \<and>
          (case gzipCompress env (CompressionLevel cfg) rlpData of
             Inl e \<Rightarrow> False
           | Inr compressedData \<Rightarrow> length compressedData < length rlpData))"

definition consistent :: "metrics \<Rightarrow> bool" where
  "consistent m = (spaceSavedBytes m = totalOriginalSize m - totalCompressedSize m)"

definition acceptedLevel :: "CompressionConfig \<Rightarrow> bool" where
  "acceptedLevel cfg = (- 2 \<le> CompressionLevel cfg \<and> CompressionLevel cfg \<le> 9)"

subsection \<open>Paged witness requests: data\<close>

text \<open>
  \<open>common.Hash\<close> is 32 bytes; page indices and page counts are \<open>uint64\<close>. A page response
  carries the payload slice of one page; a sub-request asks for one page of one witness.
\<close>

type_synonym hash = "256 word"

record WitnessPageRequest =
  reqHash :: hash
  reqPage :: "64 word"

record WitnessPageResponse =
  Data :: bytes
  Hash :: hash
  Page :: "64 word"
  TotalPages :: "64 word"

text \<open>
  The field \<open>Res\<close> of a \<open>wit.Response\<close> is an \<open>interface{}\<close>: either a
  \<open>*wit.WitnessPacketRLPPacket\<close> with its list of page responses, or anything else.
\<close>

datatype witResponse =
    WitnessPacketRLPPacket "WitnessPageResponse list"
  | OtherResponse

record witReqRes =
  Response :: witResponse
  Request :: "WitnessPageRequest list"

record witReqRetryCount =
  FailCount :: "64 word"
  ShouldRetryAgain :: bool

definition DefaultPagesRequestPerWitness :: "64 word" where
  "DefaultPagesRequestPerWitness = 1"

definition DefaultConcurrentRequestsPerPeer :: nat where
  "DefaultConcurrentRequestsPerPeer = 5"

definition DefaultConcurrentResponsesHandled :: nat where
  "DefaultConcurrentResponsesHandled = 10"

definition DefaultMaxPagesRequestRetries :: int where
  "DefaultMaxPagesRequestRetries = 2"

text \<open>
  The maps of one call of \<open>RequestWitnesses\<close>. A Go map read at a missing key gives the
  zero value, so \<open>receivedWitPages\<close> and \<open>witTotalRequest\<close> are total functions;
  \<open>witTotalPages\<close> is read with the \<open>ok\<close> flag and \<open>reconstructedWitness\<close> is ranged over,
  so they are partial maps. \<open>failedRequests\<close> is ranged over by the scheduling pass: it is
  an association list (keys pairwise different) whose order stands for the order of
  \<open>range\<close>. \<open>witReqs\<close> lists the sub-requests made so far, one per successful call of
  \<open>RequestWitness\<close>, in the order of the calls.
\<close>

record 'h batch =
  receivedWitPages :: "hash \<Rightarrow> WitnessPageResponse list"
  reconstructedWitness :: "hash \<rightharpoonup> 'h Witness"
  witTotalPages :: "hash \<rightharpoonup> 64 word"
  witTotalRequest :: "hash \<Rightarrow> 64 word"
  failedRequests :: "(hash \<times> (64 word \<times> witReqRetryCount) list) list"
  witReqs :: "WitnessPageRequest list"

definition emptyBatch :: "'h batch" where
  "emptyBatch =
     \<lparr>receivedWitPages = (\<lambda>h. []), reconstructedWitness = Map.empty,
      witTotalPages = Map.empty, witTotalRequest = (\<lambda>h. 0), failedRequests = [],
      witReqs = []\<rparr>"

text \<open>
  What the dispatcher takes from outside the sources at hand: the codec parameters, the
  value of \<open>new(stateless.Witness)\<close>, and whether the peer's \<open>RequestWitness\<close> accepts a
  sub-request or returns an error.
\<close>

record 'h peer_env =
  codec :: "'h codec_env"
  newWitness :: "'h Witness"
  peerAccepts :: "WitnessPageRequest \<Rightarrow> bool"

subsection \<open>Reassembly\<close>

text \<open>
  \<open>DecodeRLP\<close> as \<open>rlp.DecodeBytes\<close> runs it on a witness: decode an \<open>extWitness\<close>, then
  \<open>fromExtWitness\<close>.
\<close>

definition DecodeRLP :: "'h codec_env \<Rightarrow> 'h Witness \<Rightarrow> bytes \<Rightarrow> error + 'h Witness" where
  "DecodeRLP env w data =
     (case rlpDecode env data of
        Inl e \<Rightarrow> Inl e
      | Inr ext \<Rightarrow> Inr (fromExtWitness w ext))"

text \<open>
  \<open>reconstructWitness\<close> sorts the slice it is given in place, so it returns the sorted
  pages beside its result. \<open>sort.Slice\<close> with the comparison \<open>Page i < Page j\<close> is
  \<open>sort_key Page\<close>: on pages with pairwise different indices every sorting algorithm
  returns the same list (\<open>sort.Slice\<close> is not stable; on equal indices the model fixes
  the stable order).
\<close>

definition reconstructWitness ::
  "'h peer_env \<Rightarrow> WitnessPageResponse list \<Rightarrow> (error + 'h Witness) \<times> WitnessPageResponse list"
  where
  "reconstructWitness env pages =
     (let sortedPages = sort_key Page pages;
          reconstructedWitnessRLPBytes = concat (map Data sortedPages)
      in (DecodeRLP (codec env) (newWitness env) reconstructedWitnessRLPBytes, sortedPages))"

subsection \<open>Handling one response\<close>

text \<open>
  The loop of \<open>receiveWitnessPage\<close> over the pages of a packet. The result is the error
  returned from inside the loop (if any), the maps, and the number of scheduling passes
  (\<open>go buildWitnessRequests\<close>) the loop has started. \<open>int(page.TotalPages)\<close> reads the
  \<open>uint64\<close> as a signed 64-bit integer.
\<close>

fun receivePages ::
  "'h peer_env \<Rightarrow> 'h batch \<Rightarrow> WitnessPageResponse list \<Rightarrow> error option \<times> 'h batch \<times> nat" where
  "receivePages env st [] = (None, st, 0)"
| "receivePages env st (page # rest) =
     (if length (Data page) = 0 then receivePages env st rest
      else
        (let pagesOfHash = receivedWitPages st (Hash page) @ [page];
             st1 = st\<lparr>receivedWitPages := (receivedWitPages st)(Hash page := pagesOfHash)\<rparr>;
             continue = (\<lambda>st2.
               (let st3 = st2\<lparr>witTotalPages := (witTotalPages st2)(Hash page \<mapsto> TotalPages page)\<rparr>
                in case receivePages env st3 rest of
                     (err, st4, started) \<Rightarrow> (err, st4, Suc started)))
         in if int (length pagesOfHash) = sint (TotalPages page) then
              (case reconstructWitness env pagesOfHash of
                 (Inl err, sortedPages) \<Rightarrow>
                   (Some err,
                    st1\<lparr>receivedWitPages := (receivedWitPages st1)(Hash page := sortedPages)\<rparr>, 0)
               | (Inr wit, sortedPages) \<Rightarrow>
                   continue
                     (st1\<lparr>receivedWitPages := (receivedWitPages st1)(Hash page := sortedPages),
                          reconstructedWitness :=
                            (reconstructedWitness st1)(Hash page \<mapsto> wit)\<rparr>))
            else continue st1))"

text \<open>
  The deferred function of \<open>receiveWitnessPage\<close>, for one request of the failed
  sub-request: count the failure and ask for a retry while the count is at most
  \<open>DefaultMaxPagesRequestRetries\<close>. \<open>FailCount\<close> is a Go \<open>int\<close>, compared as a signed
  integer.
\<close>

definition lookupRetryCount ::
  "(hash \<times> (64 word \<times> witReqRetryCount) list) list \<Rightarrow> hash \<Rightarrow> 64 word \<Rightarrow> witReqRetryCount"
  where
  "lookupRetryCount failed h p =
     (case map_of failed h of
        None \<Rightarrow> \<lparr>FailCount = 0, ShouldRetryAgain = False\<rparr>
      | Some pagesOfHash \<Rightarrow>
          (case map_of pagesOfHash p of
             None \<Rightarrow> \<lparr>FailCount = 0, ShouldRetryAgain = False\<rparr>
           | Some retryCount \<Rightarrow> retryCount))"

definition recordFailure :: "'h batch \<Rightarrow> WitnessPageRequest \<Rightarrow> 'h batch" where
  "recordFailure st request =
     (let pagesOfHash =
            (case map_of (failedRequests st) (reqHash request) of
               None \<Rightarrow> []
             | Some ps \<Rightarrow> ps);
          retryCount = lookupRetryCount (failedRequests st) (reqHash request) (reqPage request);
          retryCount1 = retryCount\<lparr>FailCount := FailCount retryCount + 1\<rparr>;
          retryCount2 =
            (if sint (FailCount retryCount1) \<le> DefaultMaxPagesRequestRetries
             then retryCount1\<lparr>ShouldRetryAgain := True\<rparr> else retryCount1)
      in st\<lparr>failedRequests :=
              AList.update (reqHash request)
                (AList.update (reqPage request) retryCount2 pagesOfHash) (failedRequests st)\<rparr>)"

text \<open>
  \<open>receiveWitnessPage\<close>: the result is the returned error, the maps, and the number of
  scheduling passes started (those of the loop, and one more by the deferred function
  when an error is returned).
\<close>

definition receiveWitnessPage ::
  "'h peer_env \<Rightarrow> 'h batch \<Rightarrow> witReqRes \<Rightarrow> error option \<times> 'h batch \<times> nat" where
  "receiveWitnessPage env st witReqRes =
     (case (case Response witReqRes of
              OtherResponse \<Rightarrow> (Some ErrUnexpectedResponseType, st, 0)
            | WitnessPacketRLPPacket pages \<Rightarrow> receivePages env st pages) of
        (None, st1, started) \<Rightarrow> (None, st1, started)
      | (Some retrievedError, st1, started) \<Rightarrow>
          (Some retrievedError, foldl recordFailure st1 (Request witReqRes), Suc started))"

subsection \<open>Scheduling pass\<close>

text \<open>
  \<open>doWitnessRequest\<close>, without its permit (see the semaphore below): call the peer, record
  the sub-request, and count the page as requested when it is a new one.
\<close>

definition doWitnessRequest ::
  "'h peer_env \<Rightarrow> 'h batch \<Rightarrow> hash \<Rightarrow> 64 word \<Rightarrow> error option \<times> 'h batch" where
  "doWitnessRequest env st h page =
     (let request = \<lparr>reqHash = h, reqPage = page\<rparr>
      in if \<not> peerAccepts env request then (Some ErrPeerRequest, st)
         else
           (let st1 = st\<lparr>witReqs := witReqs st @ [request]\<rparr>
            in (None,
                if page \<ge> witTotalRequest st1 h
                then st1\<lparr>witTotalRequest := (witTotalRequest st1)(h := witTotalRequest st1 h + 1)\<rparr>
                else st1)))"

fun requestPages ::
  "'h peer_env \<Rightarrow> 'h batch \<Rightarrow> hash \<Rightarrow> 64 word list \<Rightarrow> error option \<times> 'h batch" where
  "requestPages env st h [] = (None, st)"
| "requestPages env st h (page # pages) =
     (case doWitnessRequest env st h page of
        (Some err, st1) \<Rightarrow> (Some err, st1)
      | (None, st1) \<Rightarrow> requestPages env st1 h pages)"

text \<open>The first loop of \<open>buildWitnessRequests\<close>: the pages \<open>start \<le> page < end\<close> of every hash.\<close>

fun requestHashes ::
  "'h peer_env \<Rightarrow> 'h batch \<Rightarrow> hash list \<Rightarrow> error option \<times> 'h batch" where
  "requestHashes env st [] = (None, st)"
| "requestHashes env st (h # hashes) =
     (let start = witTotalRequest st h;
          endPage = (case witTotalPages st h of
                   None \<Rightarrow> DefaultPagesRequestPerWitness
                 | Some e \<Rightarrow> if e = 0 then DefaultPagesRequestPerWitness else e)
      in case requestPages env st h (map of_nat [unat start ..< unat endPage]) of
           (Some err, st1) \<Rightarrow> (Some err, st1)
         | (None, st1) \<Rightarrow> requestHashes env st1 hashes)"

text \<open>
  The second loop: every failed page that asks for a retry is requested again and its
  flag cleared. The loops return the entries as they leave them; an error of
  \<open>doWitnessRequest\<close> returns at once, the remaining entries untouched.
\<close>

fun retryPages ::
  "'h peer_env \<Rightarrow> 'h batch \<Rightarrow> hash \<Rightarrow> (64 word \<times> witReqRetryCount) list \<Rightarrow>
   error option \<times> 'h batch \<times> (64 word \<times> witReqRetryCount) list" where
  "retryPages env st h [] = (None, st, [])"
| "retryPages env st h ((page, retryCount) # entries) =
     (if ShouldRetryAgain retryCount then
        (case doWitnessRequest env st h page of
           (Some err, st1) \<Rightarrow> (Some err, st1, (page, retryCount) # entries)
         | (None, st1) \<Rightarrow>
             (case retryPages env st1 h entries of
                (err, st2, entries') \<Rightarrow>
                  (err, st2, (page, retryCount\<lparr>ShouldRetryAgain := False\<rparr>) # entries')))
      else
        (case retryPages env st h entries of
           (err, st2, entries') \<Rightarrow> (err, st2, (page, retryCount) # entries')))"

fun retryHashes ::
  "'h peer_env \<Rightarrow> 'h batch \<Rightarrow> (hash \<times> (64 word \<times> witReqRetryCount) list) list \<Rightarrow>
   error option \<times> 'h batch \<times> (hash \<times> (64 word \<times> witReqRetryCount) list) list" where
  "retryHashes env st [] = (None, st, [])"
| "retryHashes env st ((h, entries) # failed) =
     (case retryPages env st h entries of
        (Some err, st1, entries') \<Rightarrow> (Some err, st1, (h, entries') # failed)
      | (None, st1, entries') \<Rightarrow>
          (case retryHashes env st1 failed of
             (err, st2, failed') \<Rightarrow> (err, st2, (h, entries') # failed')))"

definition buildWitnessRequests ::
  "'h peer_env \<Rightarrow> hash list \<Rightarrow> 'h batch \<Rightarrow> error option \<times> 'h batch" where
  "buildWitnessRequests env hashes st =
     (case requestHashes env st hashes of
        (Some err, st1) \<Rightarrow> (Some err, st1)
      | (None, st1) \<Rightarrow>
          (case retryHashes env st1 (failedRequests st1) of
             (err, st2, failed') \<Rightarrow> (err, st2\<lparr>failedRequests := failed'\<rparr>)))"

subsection \<open>Runs of a whole batch\<close>

text \<open>
  \<open>RequestWitnesses\<close> returns an error when the peer has no \<open>witPeer\<close>. Otherwise it starts
  a first scheduling pass and an adapter goroutine, and returns; the response is sent
  later by the adapter. The goroutines of one call:
  \<^item> the scheduling passes (\<open>go buildWitnessRequests\<close>), one at a time under
    \<open>buildRequestMu\<close>; a pass waits at \<open>witReqSem <- 1\<close> while the semaphore is full;
  \<^item> the adapter, which handles the responses one by one (\<open>receiveWitnessPage\<close>, then
    \<open><-witReqSem\<close>) in the order in which the fan-in goroutines put them into
    \<open>witReqResCh\<close>, which is any order;
  \<^item> the goroutine that closes \<open>witReqResCh\<close> when the wait group is at zero: no pass is
    running or waiting and every sub-request has had its response handled. The adapter
    then leaves its loop and builds the response from \<open>reconstructedWitness\<close> and
    \<open>lastWitRes\<close>.

  The state of a run: the maps, the number of values in \<open>witReqSem\<close>, the position of the
  pass that holds \<open>buildRequestMu\<close> (if any), the number of passes started and not yet
  running, the responses of the peer that the adapter has not handled yet (the peer
  answers the sub-request \<open>rq\<close> with \<open>peer n rq\<close>, where \<open>n\<close> counts the earlier sub-requests
  for the same page), and \<open>lastWitRes\<close>.
\<close>

text \<open>
  The positions of a pass in \<open>buildWitnessRequests\<close>: at the head of the loop over
  \<open>hashes\<close>; at the test \<open>page < end\<close> of the loop over the pages of a hash (\<open>start\<close> and
  \<open>end\<close> have been read); at the head of the loop over the keys of \<open>failedRequests\<close>; at
  the head of the loop over the pages of one of its entries; inside \<open>doWitnessRequest\<close>
  for a retry, the copy \<open>retryCount\<close> in hand. The keys a \<open>range\<close> visits are those the
  map has when the loop starts.
\<close>

datatype passPosition =
    AtHash "hash list"
  | AtPage hash "64 word" "64 word" "hash list"
  | AtFailedHash "hash list"
  | AtFailedPage hash "64 word list" "hash list"
  | AtRetry hash "64 word" witReqRetryCount "64 word list" "hash list"

record 'h dispatch =
  batchMaps :: "'h batch"
  witReqSem :: nat
  building :: "passPosition option"
  queuedPasses :: nat
  awaited :: "witReqRes list"
  lastWitRes :: "witResponse option"

definition initialDispatch :: "'h dispatch" where
  "initialDispatch =
     \<lparr>batchMaps = emptyBatch, witReqSem = 0, building = None, queuedPasses = 1,
      awaited = [], lastWitRes = None\<rparr>"

text \<open>
  \<open>doWitnessRequest\<close> once its send \<open>witReqSem <- 1\<close> has gone through: the permit is
  taken, and when the peer takes the sub-request its response joins those the adapter
  will handle. A refused sub-request leaves its permit in the semaphore.
\<close>

definition sendWitnessRequest ::
  "'h peer_env \<Rightarrow> (nat \<Rightarrow> WitnessPageRequest \<Rightarrow> witResponse) \<Rightarrow> 'h dispatch \<Rightarrow> hash \<Rightarrow>
   64 word \<Rightarrow> error option \<times> 'h dispatch" where
  "sendWitnessRequest env peer d h page =
     (let request = \<lparr>reqHash = h, reqPage = page\<rparr>;
          d1 = d\<lparr>witReqSem := witReqSem d + 1\<rparr>
      in case doWitnessRequest env (batchMaps d1) h page of
           (Some err, st1) \<Rightarrow> (Some err, d1\<lparr>batchMaps := st1\<rparr>)
         | (None, st1) \<Rightarrow>
             (None,
              d1\<lparr>batchMaps := st1,
                 awaited := awaited d1 @
                   [\<lparr>Response = peer (count_list (witReqs (batchMaps d)) request) request,
                     Request = [request]\<rparr>]\<rparr>))"

text \<open>The assignment \<open>failedRequests[hash][page] = retryCount\<close>.\<close>

definition storeRetryCount ::
  "'h batch \<Rightarrow> hash \<Rightarrow> 64 word \<Rightarrow> witReqRetryCount \<Rightarrow> 'h batch" where
  "storeRetryCount st h page retryCount =
     st\<lparr>failedRequests :=
          AList.update h
            (AList.update page retryCount
               (case map_of (failedRequests st) h of None \<Rightarrow> [] | Some ps \<Rightarrow> ps))
            (failedRequests st)\<rparr>"

text \<open>
  One step of the scheduling side. With no pass running, a waiting pass takes
  \<open>buildRequestMu\<close>. A running pass moves to its next position; at a sub-request it moves
  only while the semaphore has a free slot (the result \<open>None\<close>: no step). An error of
  \<open>doWitnessRequest\<close> ends the pass, as does the end of the second loop.
\<close>

fun passStep ::
  "'h peer_env \<Rightarrow> (nat \<Rightarrow> WitnessPageRequest \<Rightarrow> witResponse) \<Rightarrow> hash list \<Rightarrow> 'h dispatch \<Rightarrow>
   passPosition option \<Rightarrow> 'h dispatch option" where
  "passStep env peer hashes d None =
     (if queuedPasses d = 0 then None
      else Some (d\<lparr>building := Some (AtHash hashes), queuedPasses := queuedPasses d - 1\<rparr>))"
| "passStep env peer hashes d (Some (AtHash (h # rest))) =
     (let start = witTotalRequest (batchMaps d) h;
          endPage = (case witTotalPages (batchMaps d) h of
                   None \<Rightarrow> DefaultPagesRequestPerWitness
                 | Some e \<Rightarrow> if e = 0 then DefaultPagesRequestPerWitness else e)
      in Some (d\<lparr>building := Some (AtPage h start endPage rest)\<rparr>))"
| "passStep env peer hashes d (Some (AtPage h page endPage rest)) =
     (if page < endPage then
        (if witReqSem d < DefaultConcurrentRequestsPerPeer then
           (case sendWitnessRequest env peer d h page of
              (Some err, d1) \<Rightarrow> Some (d1\<lparr>building := None\<rparr>)
            | (None, d1) \<Rightarrow> Some (d1\<lparr>building := Some (AtPage h (page + 1) endPage rest)\<rparr>))
         else None)
      else Some (d\<lparr>building := Some (AtHash rest)\<rparr>))"
| "passStep env peer hashes d (Some (AtHash [])) =
     Some (d\<lparr>building := Some (AtFailedHash (map fst (failedRequests (batchMaps d))))\<rparr>)"
| "passStep env peer hashes d (Some (AtFailedHash (h # rest))) =
     Some (d\<lparr>building :=
                Some (AtFailedPage h
                        (case map_of (failedRequests (batchMaps d)) h of
                           None \<Rightarrow> []
                         | Some entries \<Rightarrow> map fst entries) rest)\<rparr>)"
| "passStep env peer hashes d (Some (AtFailedPage h (page # pages) rest)) =
     (let retryCount = lookupRetryCount (failedRequests (batchMaps d)) h page
      in if ShouldRetryAgain retryCount
         then Some (d\<lparr>building := Some (AtRetry h page retryCount pages rest)\<rparr>)
         else Some (d\<lparr>batchMaps := storeRetryCount (batchMaps d) h page retryCount,
                      building := Some (AtFailedPage h pages rest)\<rparr>))"
| "passStep env peer hashes d (Some (AtRetry h page retryCount pages rest)) =
     (if witReqSem d < DefaultConcurrentRequestsPerPeer then
        (case sendWitnessRequest env peer d h page of
           (Some err, d1) \<Rightarrow> Some (d1\<lparr>building := None\<rparr>)
         | (None, d1) \<Rightarrow>
             Some (d1\<lparr>batchMaps :=
                        storeRetryCount (batchMaps d1) h page
                          (retryCount\<lparr>ShouldRetryAgain := False\<rparr>),
                      building := Some (AtFailedPage h pages rest)\<rparr>))
      else None)"
| "passStep env peer hashes d (Some (AtFailedPage h [] rest)) =
     Some (d\<lparr>building := Some (AtFailedHash rest)\<rparr>)"
| "passStep env peer hashes d (Some (AtFailedHash [])) = Some (d\<lparr>building := None\<rparr>)"

text \<open>
  One step of the adapter: it handles the response at index \<open>i\<close> of those not handled
  yet, the passes started by \<open>receiveWitnessPage\<close> join the waiting ones, and one value is
  taken out of the semaphore. The handling of one response is taken as one step.
\<close>

definition adapterStep :: "'h peer_env \<Rightarrow> 'h dispatch \<Rightarrow> nat \<Rightarrow> 'h dispatch option" where
  "adapterStep env d i =
     (if i < length (awaited d) \<and> 0 < witReqSem d then
        (case receiveWitnessPage env (batchMaps d) (awaited d ! i) of
           (err, st1, started) \<Rightarrow>
             Some (d\<lparr>batchMaps := st1,
                     queuedPasses := queuedPasses d + started,
                     witReqSem := witReqSem d - 1,
                     awaited := take i (awaited d) @ drop (Suc i) (awaited d),
                     lastWitRes := Some (Response (awaited d ! i))\<rparr>))
      else None)"

text \<open>
  A schedule is a list of turns: the scheduling side, or the adapter with the index of
  the response it handles. A goroutine that cannot move at its turn stays where it is.
\<close>

datatype turn = Builder | Adapter nat

definition takeTurn ::
  "'h peer_env \<Rightarrow> (nat \<Rightarrow> WitnessPageRequest \<Rightarrow> witResponse) \<Rightarrow> hash list \<Rightarrow> 'h dispatch \<Rightarrow>
   turn \<Rightarrow> 'h dispatch" where
  "takeTurn env peer hashes d t =
     (case (case t of
              Builder \<Rightarrow> passStep env peer hashes d (building d)
            | Adapter i \<Rightarrow> adapterStep env d i) of
        None \<Rightarrow> d
      | Some d1 \<Rightarrow> d1)"

definition runTurns ::
  "'h peer_env \<Rightarrow> (nat \<Rightarrow> WitnessPageRequest \<Rightarrow> witResponse) \<Rightarrow> hash list \<Rightarrow> 'h dispatch \<Rightarrow>
   turn list \<Rightarrow> 'h dispatch" where
  "runTurns env peer hashes d turns = foldl (takeTurn env peer hashes) d turns"

text \<open>
  What the caller gets from \<open>RequestWitnesses\<close> under a schedule: the error of a missing
  \<open>witPeer\<close>; no response when the schedule ends before the wait group is at zero; the
  panic of the adapter, which reads \<open>lastWitRes.Meta\<close> with \<open>lastWitRes\<close> still \<open>nil\<close> when
  it has handled no response; or the response, built from the maps as they are then.
  (The send of the response on \<open>dlResCh\<close> races with the cancellation of the request;
  the runs here are not cancelled.)
\<close>

datatype 'h delivery =
    PeerNotFound
  | Undelivered
  | AdapterPanics
  | Delivered "'h batch"

definition RequestWitnesses ::
  "'h peer_env \<Rightarrow> hash list \<Rightarrow> (nat \<Rightarrow> WitnessPageRequest \<Rightarrow> witResponse) option \<Rightarrow>
   turn list \<Rightarrow> 'h delivery" where
  "RequestWitnesses env hashes witPeer turns =
     (case witPeer of
        None \<Rightarrow> PeerNotFound
      | Some peer \<Rightarrow>
          (let d = runTurns env peer hashes initialDispatch turns
           in if building d = None \<and> queuedPasses d = 0 \<and> awaited d = [] then
                (case lastWitRes d of
                   None \<Rightarrow> AdapterPanics
                 | Some witRes \<Rightarrow> Delivered (batchMaps d))
              else Undelivered))"

text \<open>
  The witnesses of the aggregate response are the values of \<open>reconstructedWitness\<close> when
  the adapter has left its loop: a hash is missing from the aggregate when the map has
  no entry for it. Without a response there is no aggregate.
\<close>

datatype 'w reported = NoResponse | Missing | Included 'w

definition delivered :: "'h delivery \<Rightarrow> 'h batch option" where
  "delivered r = (case r of Delivered st \<Rightarrow> Some st | _ \<Rightarrow> None)"

definition aggregate :: "'h delivery \<Rightarrow> hash \<Rightarrow> 'h Witness reported" where
  "aggregate r h =
     (case delivered r of
        None \<Rightarrow> NoResponse
      | Some st \<Rightarrow> (case reconstructedWitness st h of None \<Rightarrow> Missing | Some w \<Rightarrow> Included w))"

text \<open>
  What every run keeps. \<open>permitsHeld\<close>: every response not yet handled has its value in
  the semaphore, which holds at most \<open>DefaultConcurrentRequestsPerPeer\<close> values.
  \<open>overfull h T\<close>: the pages held for the hash \<open>h\<close> number at least \<open>T\<close>, and every page for \<open>h\<close>
  in the responses not yet handled reports \<open>T\<close> as its page count
  (\<open>reportsTotal h T\<close>).
\<close>

definition permitsHeld :: "'h dispatch \<Rightarrow> bool" where
  "permitsHeld d =
     (length (awaited d) \<le> witReqSem d \<and> witReqSem d \<le> DefaultConcurrentRequestsPerPeer)"

definition reportsTotal :: "hash \<Rightarrow> 64 word \<Rightarrow> witResponse \<Rightarrow> bool" where
  "reportsTotal h T r =
     (case r of
        OtherResponse \<Rightarrow> True
      | WitnessPacketRLPPacket pages \<Rightarrow>
          list_all (\<lambda>page. Hash page = h \<longrightarrow> TotalPages page = T) pages)"

definition overfull :: "hash \<Rightarrow> 64 word \<Rightarrow> 'h dispatch \<Rightarrow> bool" where
  "overfull h T d =
     (list_all (\<lambda>r. reportsTotal h T (Response r)) (awaited d) \<and>
      sint T \<le> int (length (receivedWitPages (batchMaps d) h)))"

text \<open>
  Two schedules. In \<open>passesFirst n\<close> the scheduling side has sixteen turns before each
  response (enough for the passes of the sample batches to end or to wait at the
  semaphore), and the responses are handled oldest first. In \<open>responsesFirst n\<close> the
  adapter handles the responses it has, newest first, before each step of the scheduling
  side.
\<close>

definition passesFirst :: "nat \<Rightarrow> turn list" where
  "passesFirst n = concat (replicate n (replicate 16 Builder @ [Adapter 0]))"

definition responsesFirst :: "nat \<Rightarrow> turn list" where
  "responsesFirst n =
     concat (replicate n [Adapter 4, Adapter 3, Adapter 2, Adapter 1, Adapter 0, Builder])"

subsection \<open>Events in any order\<close>

text \<open>
  Any interleaving of handled responses and scheduling passes, each taken as one step: a
  pass runs in one piece (\<open>buildWitnessRequests\<close> above), as it does when it finds a free
  slot in the semaphore at every sub-request.
\<close>

datatype event = Handle witReqRes | Pass

fun applyEvent :: "'h peer_env \<Rightarrow> hash list \<Rightarrow> 'h batch \<Rightarrow> event \<Rightarrow> 'h batch" where
  "applyEvent env hashes st (Handle witRes) = fst (snd (receiveWitnessPage env st witRes))"
| "applyEvent env hashes st Pass = snd (buildWitnessRequests env hashes st)"

definition applyEvents :: "'h peer_env \<Rightarrow> hash list \<Rightarrow> 'h batch \<Rightarrow> event list \<Rightarrow> 'h batch" where
  "applyEvents env hashes st events = foldl (applyEvent env hashes) st events"

text \<open>The event of a response that carries one page, for the sub-request of that page.\<close>

definition pageEvent :: "WitnessPageResponse \<Rightarrow> event" where
  "pageEvent page =
     Handle \<lparr>Response = WitnessPacketRLPPacket [page],
             Request = [\<lparr>reqHash = Hash page, reqPage = Page page\<rparr>]\<rparr>"

subsection \<open>The permits of the semaphore\<close>





subsection \<open>Cancellation\<close>

text \<open>
  \<open>ethWitRequest.Close\<close>. The cancel channel is open or closed; Go's \<open>close\<close> of a closed
  channel panics. \<open>witReqClose\<close> is the \<open>Close\<close> of one \<open>wit.Request\<close> (outside the sources
  at hand): it returns an error or \<open>nil\<close>. \<open>closedWitReqs\<close> lists the sub-requests on
  which \<open>Close\<close> has been called.
\<close>

datatype 'a outcome = Returned 'a | Panicked

record 'r ethWitRequest =
  cancelClosed :: bool
  reqWitReqs :: "'r list"
  closedWitReqs :: "'r list"

fun closeWitReqs ::
  "('r \<Rightarrow> error option) \<Rightarrow> 'r list \<Rightarrow> 'r list \<Rightarrow> error option \<times> 'r list" where
  "closeWitReqs witReqClose [] closed = (None, closed)"
| "closeWitReqs witReqClose (witReq # rest) closed =
     (case witReqClose witReq of
        Some err \<Rightarrow> (Some err, closed @ [witReq])
      | None \<Rightarrow> closeWitReqs witReqClose rest (closed @ [witReq]))"

definition Close ::
  "('r \<Rightarrow> error option) \<Rightarrow> 'r ethWitRequest \<Rightarrow> error option outcome \<times> 'r ethWitRequest" where
  "Close witReqClose r =
     (if cancelClosed r then (Panicked, r)
      else
        (case closeWitReqs witReqClose (reqWitReqs r) (closedWitReqs r) of
           (err, closed) \<Rightarrow>
             (Returned err, r\<lparr>cancelClosed := True, closedWitReqs := closed\<rparr>)))"

subsection \<open>Sample batches\<close>

text \<open>
  The sample witness serialises to nine bytes; the sample peer serves them in three pages
  of three bytes. Only used to evaluate the model at concrete inputs.
\<close>

definition samplePeerEnv :: "byte peer_env" where
  "samplePeerEnv = \<lparr>codec = sampleEnv, newWitness = zeroWitness, peerAccepts = (\<lambda>rq. True)\<rparr>"

definition sampleChunks :: "bytes list" where
  "sampleChunks = [[0, 0, 6], [0, 0, 0], [0, 0, 0]]"

definition pageOf :: "bytes list \<Rightarrow> hash \<Rightarrow> nat \<Rightarrow> WitnessPageResponse" where
  "pageOf chunks h i =
     \<lparr>Data = chunks ! i, Hash = h, Page = of_nat i, TotalPages = of_nat (length chunks)\<rparr>"

definition splitPages :: "bytes list \<Rightarrow> hash \<Rightarrow> WitnessPageResponse list" where
  "splitPages chunks h = map (pageOf chunks h) [0 ..< length chunks]"

text \<open>
  A peer that serves the pages of \<open>chunks\<close> and answers the first \<open>failures page\<close> requests
  for a page with a response of the wrong type, as the mock peer of the tests does.
\<close>

definition failingPeer ::
  "bytes list \<Rightarrow> (64 word \<Rightarrow> nat) \<Rightarrow> nat \<Rightarrow> WitnessPageRequest \<Rightarrow> witResponse" where
  "failingPeer chunks failures n rq =
     (if n < failures (reqPage rq) then OtherResponse
      else if unat (reqPage rq) < length chunks
      then WitnessPacketRLPPacket [pageOf chunks (reqHash rq) (unat (reqPage rq))]
      else WitnessPacketRLPPacket [])"

text \<open>
  A peer that serves the pages of \<open>chunks\<close>, but answers the first \<open>wrongType page\<close>
  requests for a page with a response of the wrong type and the next \<open>cutShort page\<close> requests
  with the page cut down to its first byte.
\<close>

definition cuttingPeer ::
  "bytes list \<Rightarrow> (64 word \<Rightarrow> nat) \<Rightarrow> (64 word \<Rightarrow> nat) \<Rightarrow> nat \<Rightarrow> WitnessPageRequest \<Rightarrow>
   witResponse" where
  "cuttingPeer chunks wrongType cutShort n rq =
     (if wrongType (reqPage rq) \<le> n \<and> n < wrongType (reqPage rq) + cutShort (reqPage rq) \<and>
         unat (reqPage rq) < length chunks
      then WitnessPacketRLPPacket
             [(pageOf chunks (reqHash rq) (unat (reqPage rq)))
                \<lparr>Data := take 1 (chunks ! unat (reqPage rq))\<rparr>]
      else failingPeer chunks wrongType n rq)"

text \<open>The serialised sample witness in seven pages.\<close>

definition sevenChunks :: "bytes list" where
  "sevenChunks = [[0], [0], [6], [0], [0], [0], [0, 0, 0]]"

text \<open>
  A peer whose pages disagree on the page count: page 0 reports three pages, page 1
  reports two, and the request for page 2 is answered with an empty packet.
\<close>

definition disagreeingPeer :: "nat \<Rightarrow> WitnessPageRequest \<Rightarrow> witResponse" where
  "disagreeingPeer n rq =
     (if reqPage rq = 0
      then WitnessPacketRLPPacket
             [\<lparr>Data = [0, 0, 6, 0], Hash = reqHash rq, Page = 0, TotalPages = 3\<rparr>]
      else if reqPage rq = 1
      then WitnessPacketRLPPacket
             [\<lparr>Data = [0, 0, 0, 0, 0], Hash = reqHash rq, Page = 1, TotalPages = 2\<rparr>]
      else WitnessPacketRLPPacket [])"

text \<open>Three pages of which the second has no bytes.\<close>

definition chunksWithEmptyPage :: "bytes list" where
  "chunksWithEmptyPage = [[0, 0, 6], [], [0, 0, 0, 0, 0, 0]]"

subsection \<open>Bookkeeping of failed pages\<close>

text \<open>
  \<open>failedRequests\<close> stands for a map of maps: the keys of the outer list and of every
  inner list are pairwise different. \<open>failedWithin\<close>: every page with a failure entry has
  been counted as requested. An event answers a requested page when it is a scheduling
  pass, or the response to a sub-request (of one page, as \<open>doWitnessRequest\<close> builds them)
  whose page has been counted as requested.
\<close>

definition wellFormedFailed :: "(hash \<times> (64 word \<times> witReqRetryCount) list) list \<Rightarrow> bool" where
  "wellFormedFailed failed =
     (distinct (map fst failed) \<and> list_all (\<lambda>(h, entries). distinct (map fst entries)) failed)"

definition failedWithin :: "'h batch \<Rightarrow> bool" where
  "failedWithin st =
     list_all (\<lambda>(h, entries). list_all (\<lambda>(page, retryCount). page < witTotalRequest st h) entries)
       (failedRequests st)"

definition answersRequested :: "'h batch \<Rightarrow> event \<Rightarrow> bool" where
  "answersRequested st ev =
     (case ev of
        Pass \<Rightarrow> True
      | Handle witRes \<Rightarrow>
          (case Request witRes of
             [rq] \<Rightarrow> reqPage rq < witTotalRequest st (reqHash rq)
           | _ \<Rightarrow> False))"

fun validEvents :: "'h peer_env \<Rightarrow> hash list \<Rightarrow> 'h batch \<Rightarrow> event list \<Rightarrow> bool" where
  "validEvents env hashes st [] = True"
| "validEvents env hashes st (ev # events) =
     (answersRequested st ev \<and> validEvents env hashes (applyEvent env hashes st ev) events)"

text \<open>
  What the first loop of a scheduling pass keeps: it only appends sub-requests and raises
  \<open>witTotalRequest\<close>, and for every page the number of sub-requests made for it, less one
  once the page is counted as requested, stays the same (a page is requested by this loop
  exactly when it becomes counted).
\<close>

definition keepsCounts :: "'h batch \<Rightarrow> 'h batch \<Rightarrow> bool" where
  "keepsCounts st st' =
     (failedRequests st' = failedRequests st \<and>
      witTotalPages st' = witTotalPages st \<and>
      receivedWitPages st' = receivedWitPages st \<and>
      reconstructedWitness st' = reconstructedWitness st \<and>
      (\<forall>x. witTotalRequest st x \<le> witTotalRequest st' x) \<and>
      (\<forall>h p. int (count_list (witReqs st') \<lparr>reqHash = h, reqPage = p\<rparr>) -
               (if p < witTotalRequest st' h then 1 else 0) =
             int (count_list (witReqs st) \<lparr>reqHash = h, reqPage = p\<rparr>) -
               (if p < witTotalRequest st h then 1 else 0)))"

text \<open>
  The invariant behind the retry ceiling, for one page \<open>p\<close> of one hash \<open>h\<close> after at most
  \<open>k\<close> events: the sub-requests made for the page, plus the retry that is pending when its
  flag is set, number at most one (once the page is counted as requested) plus the
  smaller of its failure count and two.
\<close>

definition retryInvariant :: "nat \<Rightarrow> 'h batch \<Rightarrow> hash \<Rightarrow> 64 word \<Rightarrow> bool" where
  "retryInvariant k st h p =
     (wellFormedFailed (failedRequests st) \<and> failedWithin st \<and>
      unat (FailCount (lookupRetryCount (failedRequests st) h p)) \<le> k \<and>
      int (count_list (witReqs st) \<lparr>reqHash = h, reqPage = p\<rparr>) +
        (if ShouldRetryAgain (lookupRetryCount (failedRequests st) h p) then 1 else 0) \<le>
      (if p < witTotalRequest st h then 1 else 0) +
        int (min (unat (FailCount (lookupRetryCount (failedRequests st) h p))) 2))"

text \<open>
  Sample events: the first scheduling pass, then three times a response of the wrong type
  to the sub-request for page 0 of hash 1, each followed by the pass it starts.
\<close>

definition failedProbe :: witReqRes where
  "failedProbe = \<lparr>Response = OtherResponse, Request = [\<lparr>reqHash = 1, reqPage = 0\<rparr>]\<rparr>"

definition threeFailures :: "event list" where
  "threeFailures =
     [Pass, Handle failedProbe, Pass, Handle failedProbe, Pass, Handle failedProbe, Pass]"


section \<open>Properties of the witness codec\<close>

subsection \<open>Evaluation of the instance\<close>


lemmas sample_defs = sampleEnv_def sampleWitness_def sampleWitnessEmptyEntry_def zeroWitness_def
  lowThresholdConfig_def badLevelConfig_def zeroMetrics_def frameEncode_def
lemmas codec_defs = EncodeCompressed_def EncodeRLP_def Optimize_def toExtWitness_def
  gzipCompress_def writeMarked_def bufferWrite_def DecodeCompressed_def fromExtWitness_def

lemma replicate_numeral: "replicate (numeral k) x = x # replicate (pred_numeral k) x"
  by (simp add: numeral_eq_Suc)

lemma encode_sampleWitness:
  "EncodeCompressed sampleEnv lowThresholdConfig bufferWrite zeroMetrics [] sampleWitness =
     (None, [1, 2, 0, 1, 6, 6, 0],
      \<lparr>compressionCount = 1, uncompressedCount = 0, decompressionCount = 0,
       compressionRatio = 66, totalOriginalSize = 9, totalCompressedSize = 6,
       spaceSavedBytes = 3\<rparr>, sampleWitness)"
  by (simp add: sample_defs codec_defs Let_def)

lemma encode_sampleWitnessEmptyEntry:
  "EncodeCompressed sampleEnv lowThresholdConfig bufferWrite zeroMetrics [] sampleWitnessEmptyEntry =
     (None, [0, 0, 0, 1, 7],
      \<lparr>compressionCount = 0, uncompressedCount = 1, decompressionCount = 0,
       compressionRatio = 0, totalOriginalSize = 4, totalCompressedSize = 4,
       spaceSavedBytes = 0\<rparr>, \<lparr>wcontext = 0, Headers = [], State = {[7]}\<rparr>)"
  by (simp add: sample_defs codec_defs Let_def)

lemma decode_uncompressed_sample:
  "DecodeCompressed sampleEnv m zeroWitness (0 # [0, 0, 1, 7]) =
     (None, \<lparr>wcontext = 0, Headers = [], State = {[7]}\<rparr>, m)"
  by (simp add: sample_defs codec_defs Let_def)

lemma decode_compressed_sample:
  "DecodeCompressed sampleEnv m zeroWitness [1, 2, 0, 1, 6, 6, 0] =
     (None, sampleWitness, m\<lparr>decompressionCount := decompressionCount m + 1\<rparr>)"
  by (simp add: sample_defs codec_defs Let_def replicate_numeral)

subsection \<open>Round trip of the compressed encoding\<close>

text \<open>
  Counterexample to C2 as stated: with deduplication on (the default) and a level within
  1..9, \<open>EncodeCompressed\<close> first removes the empty state entry from the witness, so
  decoding its output gives a witness whose state set lacks the empty entry the input
  had.
\<close>

theorem roundtrip_empty_entry_counterexample:
  "1 \<le> CompressionLevel lowThresholdConfig \<and> CompressionLevel lowThresholdConfig \<le> 9 \<and>
   fst (EncodeCompressed sampleEnv lowThresholdConfig bufferWrite zeroMetrics []
          sampleWitnessEmptyEntry) = None \<and>
   DecodeCompressed sampleEnv zeroMetrics zeroWitness
     (fst (snd (EncodeCompressed sampleEnv lowThresholdConfig bufferWrite zeroMetrics []
                  sampleWitnessEmptyEntry))) =
     (None, \<lparr>wcontext = 0, Headers = [], State = {[7]}\<rparr>, zeroMetrics) \<and>
   \<lparr>wcontext = 0, Headers = [], State = {[7]}\<rparr> \<noteq> sampleWitnessEmptyEntry"
  apply (simp only: encode_sampleWitnessEmptyEntry fst_conv snd_conv decode_uncompressed_sample)
  apply (simp add: sample_defs)
  done


text \<open>
  Decoding what \<open>toExtWitness\<close> produced gives the witness back as soon as the key order
  enumerates the state set.
\<close>

lemma fromExt_toExt:
  "set (mapOrder env (State w)) = State w \<Longrightarrow> fromExtWitness r (toExtWitness env w) = w"
  by (simp add: fromExtWitness_def toExtWitness_def)

lemma EncodeCompressed_buffer_cases:
  assumes "rlpEncode env (toExtWitness env w') = Inr rlpData"
    and "w' = (if UseDeduplication cfg then Optimize w else w)"
    and "acceptedLevel cfg"
  shows "\<exists>m1. EncodeCompressed env cfg bufferWrite m [] w =
           (None, 1 # deflate env (CompressionLevel cfg) rlpData, m1, w') \<or>
         EncodeCompressed env cfg bufferWrite m [] w = (None, 0 # rlpData, m1, w')"
  using assms
  by (auto simp: EncodeCompressed_def EncodeRLP_def gzipCompress_def writeMarked_def
      bufferWrite_def acceptedLevel_def Let_def)

text \<open>
  C2 (amended). For every witness \<open>w\<close> and every configuration with gzip level in 1..9,
  where the serialisation and gzip primitives invert each other on the bytes at hand:
  \<open>EncodeCompressed\<close> into an empty buffer succeeds and writes marker \<open>0x00\<close> or \<open>0x01\<close>
  followed by the payload, and \<open>DecodeCompressed\<close> of these bytes succeeds on either path
  with the witness as \<open>EncodeCompressed\<close> left it: \<open>w\<close> without its empty state entry when
  deduplication is on, \<open>w\<close> itself otherwise. The headers are those of \<open>w\<close>, and the
  result is \<open>w\<close> whenever \<open>w\<close> has no empty state entry or deduplication is off.
\<close>

theorem EncodeCompressed_DecodeCompressed_roundtrip:
  assumes level: "1 \<le> CompressionLevel cfg" "CompressionLevel cfg \<le> 9"
    and w': "w' = (if UseDeduplication cfg then Optimize w else w)"
    and enc: "rlpEncode env (toExtWitness env w') = Inr rlpData"
    and dec: "rlpDecode env rlpData = Inr (toExtWitness env w')"
    and keys: "set (mapOrder env (State w')) = State w'"
    and gz: "gunzip env (deflate env (CompressionLevel cfg) rlpData) = Inr rlpData"
  shows "\<exists>marker payload m1 m2.
           EncodeCompressed env cfg bufferWrite m [] w = (None, marker # payload, m1, w') \<and>
           (marker = 0 \<or> marker = 1) \<and>
           DecodeCompressed env m1 r (marker # payload) = (None, w', m2) \<and>
           Headers w' = Headers w \<and> State w' = State w - (if UseDeduplication cfg then {[]} else {}) \<and>
           (\<not> UseDeduplication cfg \<or> [] \<notin> State w \<longrightarrow> w' = w)"
proof -
  have acc: "acceptedLevel cfg"
    using level by (simp add: acceptedLevel_def)
  have same: "Headers w' = Headers w \<and>
      State w' = State w - (if UseDeduplication cfg then {[]} else {}) \<and>
      (\<not> UseDeduplication cfg \<or> [] \<notin> State w \<longrightarrow> w' = w)"
    using w' by (simp add: Optimize_def)
  from EncodeCompressed_buffer_cases [OF enc w' acc, of m]
  obtain m1 where
    "EncodeCompressed env cfg bufferWrite m [] w =
       (None, 1 # deflate env (CompressionLevel cfg) rlpData, m1, w') \<or>
     EncodeCompressed env cfg bufferWrite m [] w = (None, 0 # rlpData, m1, w')"
    by blast
  then show ?thesis
  proof
    assume e: "EncodeCompressed env cfg bufferWrite m [] w =
       (None, 1 # deflate env (CompressionLevel cfg) rlpData, m1, w')"
    have "DecodeCompressed env m1 r (1 # deflate env (CompressionLevel cfg) rlpData) =
        (None, w', m1\<lparr>decompressionCount := decompressionCount m1 + 1\<rparr>)"
      using gz dec keys by (simp add: DecodeCompressed_def fromExt_toExt)
    with e same show ?thesis by blast
  next
    assume e: "EncodeCompressed env cfg bufferWrite m [] w = (None, 0 # rlpData, m1, w')"
    have "DecodeCompressed env m1 r (0 # rlpData) = (None, w', m1)"
      using dec keys by (simp add: DecodeCompressed_def fromExt_toExt)
    with e same show ?thesis by blast
  qed
qed

subsection \<open>Decode failures\<close>

text \<open>
  C6 (amended). \<open>DecodeCompressed\<close> returns the error and leaves the receiver unchanged
  when the input is empty, when the marker is \<open>0x01\<close> and the gzip stream is corrupt, when
  the marker is \<open>0x01\<close> and the decompressed bytes are malformed, and when the marker is
  not \<open>0x01\<close> and the bytes after it are malformed. The marker is only compared with \<open>0x01\<close>: every other marker
  value decodes exactly as marker \<open>0x00\<close> does.
\<close>

theorem DecodeCompressed_failures:
  "DecodeCompressed env m w [] = (Some ErrEmptyData, w, m) \<and>
   (gunzip env p = Inl e \<longrightarrow> DecodeCompressed env m w (1 # p) = (Some e, w, m)) \<and>
   (gunzip env p = Inr d \<and> rlpDecode env d = Inl e \<longrightarrow>
      fst (DecodeCompressed env m w (1 # p)) = Some e \<and>
      fst (snd (DecodeCompressed env m w (1 # p))) = w) \<and>
   (marker \<noteq> 1 \<and> rlpDecode env p = Inl e \<longrightarrow>
      DecodeCompressed env m w (marker # p) = (Some e, w, m)) \<and>
   (marker \<noteq> 1 \<longrightarrow>
      DecodeCompressed env m w (marker # p) = DecodeCompressed env m w (0 # p))"
  by (simp add: DecodeCompressed_def)

text \<open>
  Counterexample to C6 as stated: flipping one bit of the marker \<open>0x00\<close> that
  \<open>EncodeCompressed\<close> wrote (giving \<open>0x02\<close>) is not detected; the corrupted bytes decode
  without error, to the same result as the uncorrupted ones.
\<close>

theorem flipped_marker_counterexample:
  "fst (snd (EncodeCompressed sampleEnv lowThresholdConfig bufferWrite zeroMetrics []
               sampleWitnessEmptyEntry)) = 0 # [0, 0, 1, 7] \<and>
   xor (0 :: byte) (push_bit 1 1) = 2 \<and>
   DecodeCompressed sampleEnv zeroMetrics zeroWitness (2 # [0, 0, 1, 7]) =
     DecodeCompressed sampleEnv zeroMetrics zeroWitness (0 # [0, 0, 1, 7]) \<and>
   fst (DecodeCompressed sampleEnv zeroMetrics zeroWitness (2 # [0, 0, 1, 7])) = None"
  apply (simp only: encode_sampleWitnessEmptyEntry fst_conv snd_conv)
  apply (simp add: sample_defs codec_defs)
  done


subsection \<open>Metrics\<close>

lemma EncodeCompressed_consistent:
  assumes "acceptedLevel cfg" "consistent m"
  shows "consistent (fst (snd (snd (EncodeCompressed env cfg wrWrite m wr w))))"
  using assms
  by (auto simp: EncodeCompressed_def consistent_def acceptedLevel_def gzipCompress_def
      Let_def split: prod.splits sum.splits)


lemma DecodeCompressed_gauges:
  "consistent m \<Longrightarrow> consistent (snd (snd (DecodeCompressed env m r data)))"
  by (cases data) (auto simp: DecodeCompressed_def consistent_def Let_def split: sum.splits)

lemma DecodeCompressed_compressionCount:
  "compressionCount (snd (snd (DecodeCompressed env m r data))) = compressionCount m"
  by (cases data) (auto simp: DecodeCompressed_def Let_def split: sum.splits)

lemma EncodeCompressed_compressionCount:
  assumes "triggersCompression env cfg w"
  shows "compressionCount (fst (snd (snd (EncodeCompressed env cfg wrWrite m wr w)))) =
         compressionCount m + 1"
  using assms
  by (auto simp: EncodeCompressed_def triggersCompression_def Let_def
      split: prod.splits sum.splits)

lemma encodeCalls_consistent:
  "\<forall>c \<in> set calls. acceptedLevel (fst c) \<Longrightarrow> consistent m \<Longrightarrow>
   consistent (encodeCalls env m calls)"
proof (induction calls arbitrary: m)
  case Nil
  then show ?case by simp
next
  case (Cons c calls)
  obtain cfg wrWrite wr w where c: "c = (cfg, wrWrite, wr, w)"
    by (cases c) auto
  obtain err wr' m' w' where e: "EncodeCompressed env cfg wrWrite m wr w = (err, wr', m', w')"
    by (cases "EncodeCompressed env cfg wrWrite m wr w") auto
  have "consistent m'"
    using EncodeCompressed_consistent [of cfg m env wrWrite wr w] Cons.prems c e by simp
  then show ?case
    using Cons.IH [of m'] Cons.prems(1) c e by simp
qed

lemma triggers_accepted: "triggersCompression env cfg w \<Longrightarrow> acceptedLevel cfg"
  by (auto simp: triggersCompression_def gzipCompress_def acceptedLevel_def
      split: sum.splits if_splits)

lemma roundTrips_count:
  "\<forall>t \<in> set trips. triggersCompression env (fst t) (snd t) \<Longrightarrow>
   compressionCount (roundTrips env r m trips) = compressionCount m + of_nat (length trips)"
proof (induction trips arbitrary: m)
  case Nil
  then show ?case by simp
next
  case (Cons t trips)
  obtain cfg w where t: "t = (cfg, w)"
    by (cases t) auto
  obtain err out m1 w1 where e: "EncodeCompressed env cfg bufferWrite m [] w = (err, out, m1, w1)"
    by (cases "EncodeCompressed env cfg bufferWrite m [] w") auto
  obtain err2 w2 m2 where d: "DecodeCompressed env m1 r out = (err2, w2, m2)"
    by (cases "DecodeCompressed env m1 r out") auto
  have "compressionCount m1 = compressionCount m + 1"
    using EncodeCompressed_compressionCount [of env cfg w bufferWrite m "[]"] Cons.prems t e
    by simp
  moreover have "compressionCount m2 = compressionCount m1"
    using DecodeCompressed_compressionCount [of env m1 r out] d by simp
  ultimately show ?case
    using Cons.IH [of m2] Cons.prems t e d by simp
qed

lemma roundTrips_consistent:
  "\<forall>t \<in> set trips. acceptedLevel (fst t) \<Longrightarrow> consistent m \<Longrightarrow>
   consistent (roundTrips env r m trips)"
proof (induction trips arbitrary: m)
  case Nil
  then show ?case by simp
next
  case (Cons t trips)
  obtain cfg w where t: "t = (cfg, w)"
    by (cases t) auto
  obtain err out m1 w1 where e: "EncodeCompressed env cfg bufferWrite m [] w = (err, out, m1, w1)"
    by (cases "EncodeCompressed env cfg bufferWrite m [] w") auto
  obtain err2 w2 m2 where d: "DecodeCompressed env m1 r out = (err2, w2, m2)"
    by (cases "DecodeCompressed env m1 r out") auto
  have "consistent m1"
    using EncodeCompressed_consistent [of cfg m env bufferWrite "[]" w] Cons.prems t e by simp
  then have "consistent m2"
    using DecodeCompressed_gauges [of m1 env r out] d by simp
  then show ?case
    using Cons.IH [of m2] Cons.prems(1) t e d by simp
qed

lemma consistent_zero: "consistent zeroMetrics"
  by (simp add: consistent_def zeroMetrics_def)

text \<open>
  C9 (amended). Starting from zeroed metrics, after any sequence of \<open>EncodeCompressed\<close>
  calls whose configurations carry a gzip level the gzip writer accepts (-2..9, which
  covers the documented 1..9), \<open>space_saved_bytes\<close> equals \<open>total_original_size\<close> minus
  \<open>total_compressed_size\<close> (in \<open>int64\<close> arithmetic); and after \<open>N\<close> encode/decode round
  trips that each trigger compression, \<open>compression_count\<close> is \<open>N\<close> and the same equation
  holds.
\<close>

theorem metrics_consistency:
  "((\<forall>c \<in> set calls. acceptedLevel (fst c)) \<longrightarrow>
      space_saved_bytes (CompressionStats (encodeCalls env zeroMetrics calls)) =
        total_original_size (CompressionStats (encodeCalls env zeroMetrics calls)) -
        total_compressed_size (CompressionStats (encodeCalls env zeroMetrics calls))) \<and>
   ((\<forall>t \<in> set trips. triggersCompression env (fst t) (snd t)) \<longrightarrow>
      compression_count (CompressionStats (roundTrips env r zeroMetrics trips)) =
        of_nat (length trips) \<and>
      space_saved_bytes (CompressionStats (roundTrips env r zeroMetrics trips)) =
        total_original_size (CompressionStats (roundTrips env r zeroMetrics trips)) -
        total_compressed_size (CompressionStats (roundTrips env r zeroMetrics trips)))"
proof (intro conjI impI)
  assume "\<forall>c \<in> set calls. acceptedLevel (fst c)"
  then have "consistent (encodeCalls env zeroMetrics calls)"
    by (rule encodeCalls_consistent) (rule consistent_zero)
  then show "space_saved_bytes (CompressionStats (encodeCalls env zeroMetrics calls)) =
        total_original_size (CompressionStats (encodeCalls env zeroMetrics calls)) -
        total_compressed_size (CompressionStats (encodeCalls env zeroMetrics calls))"
    by (simp add: consistent_def CompressionStats_def)
next
  assume a: "\<forall>t \<in> set trips. triggersCompression env (fst t) (snd t)"
  from roundTrips_count [OF a, of r zeroMetrics]
  show "compression_count (CompressionStats (roundTrips env r zeroMetrics trips)) =
        of_nat (length trips)"
    by (simp add: CompressionStats_def zeroMetrics_def)
next
  assume a: "\<forall>t \<in> set trips. triggersCompression env (fst t) (snd t)"
  then have "\<forall>t \<in> set trips. acceptedLevel (fst t)"
    using triggers_accepted by blast
  then have "consistent (roundTrips env r zeroMetrics trips)"
    by (rule roundTrips_consistent) (rule consistent_zero)
  then show "space_saved_bytes (CompressionStats (roundTrips env r zeroMetrics trips)) =
        total_original_size (CompressionStats (roundTrips env r zeroMetrics trips)) -
        total_compressed_size (CompressionStats (roundTrips env r zeroMetrics trips))"
    by (simp add: consistent_def CompressionStats_def)
qed

text \<open>
  Counterexample to C9 as stated: a call whose configuration carries level 10 adds the
  encoded size to \<open>total_original_size\<close> and then returns the gzip writer's error, before
  any other gauge is touched.
\<close>

lemma encode_badLevel:
  "EncodeCompressed sampleEnv badLevelConfig bufferWrite zeroMetrics [] sampleWitness =
     (Some ErrGzipLevel, [], zeroMetrics\<lparr>totalOriginalSize := 9\<rparr>, sampleWitness)"
  by (simp add: sample_defs codec_defs Let_def)

theorem rejected_level_counterexample:
  "space_saved_bytes (CompressionStats (encodeCalls sampleEnv zeroMetrics
      [(badLevelConfig, bufferWrite, [], sampleWitness)])) \<noteq>
   total_original_size (CompressionStats (encodeCalls sampleEnv zeroMetrics
      [(badLevelConfig, bufferWrite, [], sampleWitness)])) -
   total_compressed_size (CompressionStats (encodeCalls sampleEnv zeroMetrics
      [(badLevelConfig, bufferWrite, [], sampleWitness)])) \<and>
   space_saved_bytes (CompressionStats (encodeCalls sampleEnv zeroMetrics
      [(badLevelConfig, bufferWrite, [], sampleWitness)])) = 0 \<and>
   total_original_size (CompressionStats (encodeCalls sampleEnv zeroMetrics
      [(badLevelConfig, bufferWrite, [], sampleWitness)])) = 9 \<and>
   total_compressed_size (CompressionStats (encodeCalls sampleEnv zeroMetrics
      [(badLevelConfig, bufferWrite, [], sampleWitness)])) = 0"
  apply (simp only: encodeCalls.simps encode_badLevel prod.case)
  apply (simp add: CompressionStats_def zeroMetrics_def)
  done

lemma triggers_sample: "triggersCompression sampleEnv lowThresholdConfig sampleWitness"
  by (simp add: triggersCompression_def sample_defs codec_defs)

theorem metrics_consistency_witness:
  "acceptedLevel lowThresholdConfig \<and>
   space_saved_bytes (CompressionStats (encodeCalls sampleEnv zeroMetrics
      [(lowThresholdConfig, bufferWrite, [], sampleWitness),
       (lowThresholdConfig, bufferWrite, [], sampleWitnessEmptyEntry)])) =
     total_original_size (CompressionStats (encodeCalls sampleEnv zeroMetrics
      [(lowThresholdConfig, bufferWrite, [], sampleWitness),
       (lowThresholdConfig, bufferWrite, [], sampleWitnessEmptyEntry)])) -
     total_compressed_size (CompressionStats (encodeCalls sampleEnv zeroMetrics
      [(lowThresholdConfig, bufferWrite, [], sampleWitness),
       (lowThresholdConfig, bufferWrite, [], sampleWitnessEmptyEntry)])) \<and>
   triggersCompression sampleEnv lowThresholdConfig sampleWitness \<and>
   compression_count (CompressionStats (roundTrips sampleEnv zeroWitness zeroMetrics
      [(lowThresholdConfig, sampleWitness), (lowThresholdConfig, sampleWitness)])) = 2"
proof -
  have a: "\<forall>c \<in> set [(lowThresholdConfig, bufferWrite, [], sampleWitness),
               (lowThresholdConfig, bufferWrite, [], sampleWitnessEmptyEntry)].
      acceptedLevel (fst c)"
    by (simp add: acceptedLevel_def lowThresholdConfig_def)
  have b: "\<forall>t \<in> set [(lowThresholdConfig, sampleWitness), (lowThresholdConfig, sampleWitness)].
      triggersCompression sampleEnv (fst t) (snd t)"
    by (simp add: triggers_sample)
  have c: "acceptedLevel lowThresholdConfig"
    by (simp add: acceptedLevel_def lowThresholdConfig_def)
  show ?thesis
    using a b c triggers_sample
      metrics_consistency [of "[(lowThresholdConfig, bufferWrite, [], sampleWitness),
               (lowThresholdConfig, bufferWrite, [], sampleWitnessEmptyEntry)]"
          sampleEnv "[(lowThresholdConfig, sampleWitness), (lowThresholdConfig, sampleWitness)]"
          zeroWitness]
    by simp
qed


subsection \<open>Empty input, marker and payload\<close>

text \<open>
  C10. \<open>DecodeCompressed\<close> on the empty byte sequence returns the error ``empty data'' and
  leaves the receiver (and the metrics) as they were; any error leaves the receiver as
  it was. On an input of at least one byte, the first byte is the marker and is only
  compared with \<open>0x01\<close>; the bytes after it, and nothing else, are the payload handed to
  gunzip (marker \<open>0x01\<close>) or to the decoder (any other marker).
\<close>

theorem DecodeCompressed_marker_and_payload:
  "DecodeCompressed env m w [] = (Some ErrEmptyData, w, m) \<and>
   (fst (DecodeCompressed env m w data) \<noteq> None \<longrightarrow>
      fst (snd (DecodeCompressed env m w data)) = w) \<and>
   (data \<noteq> [] \<and> hd data \<noteq> 1 \<longrightarrow>
      DecodeCompressed env m w data =
        (case rlpDecode env (tl data) of
           Inl e \<Rightarrow> (Some e, w, m)
         | Inr ext \<Rightarrow> (None, fromExtWitness w ext, m))) \<and>
   (data \<noteq> [] \<and> hd data = 1 \<longrightarrow>
      DecodeCompressed env m w data =
        (case gunzip env (tl data) of
           Inl e \<Rightarrow> (Some e, w, m)
         | Inr rlpData \<Rightarrow>
             (case rlpDecode env rlpData of
                Inl e \<Rightarrow> (Some e, w, m\<lparr>decompressionCount := decompressionCount m + 1\<rparr>)
              | Inr ext \<Rightarrow>
                  (None, fromExtWitness w ext,
                   m\<lparr>decompressionCount := decompressionCount m + 1\<rparr>))))"
  by (cases data) (auto simp: DecodeCompressed_def Let_def split: sum.splits)

theorem DecodeCompressed_marker_and_payload_witness:
  "DecodeCompressed sampleEnv zeroMetrics zeroWitness [] =
     (Some ErrEmptyData, zeroWitness, zeroMetrics) \<and>
   [0, 0, 0, 1, 7 :: byte] \<noteq> [] \<and> hd [0, 0, 0, 1, 7 :: byte] \<noteq> 1 \<and>
   DecodeCompressed sampleEnv zeroMetrics zeroWitness [0, 0, 0, 1, 7] =
     (None, \<lparr>wcontext = 0, Headers = [], State = {[7]}\<rparr>, zeroMetrics) \<and>
   [1, 7 :: byte] \<noteq> [] \<and> hd [1, 7 :: byte] = 1 \<and>
   DecodeCompressed sampleEnv zeroMetrics zeroWitness [1, 7] =
     (Some ErrGunzip, zeroWitness, zeroMetrics)"
  using DecodeCompressed_marker_and_payload [of sampleEnv zeroMetrics zeroWitness "[0, 0, 0, 1, 7]"]
    DecodeCompressed_marker_and_payload [of sampleEnv zeroMetrics zeroWitness "[1, 7]"]
  by (simp add: sampleEnv_def fromExtWitness_def zeroWitness_def)

theorem DecodeCompressed_failures_witness:
  "DecodeCompressed sampleEnv zeroMetrics zeroWitness [] =
     (Some ErrEmptyData, zeroWitness, zeroMetrics) \<and>
   gunzip sampleEnv [7] = Inl ErrGunzip \<and>
   DecodeCompressed sampleEnv zeroMetrics zeroWitness (1 # [7]) =
     (Some ErrGunzip, zeroWitness, zeroMetrics) \<and>
   (255 :: byte) \<noteq> 1 \<and> rlpDecode sampleEnv [7] = Inl ErrRLP \<and>
   DecodeCompressed sampleEnv zeroMetrics zeroWitness (255 # [7]) =
     (Some ErrRLP, zeroWitness, zeroMetrics) \<and>
   DecodeCompressed sampleEnv zeroMetrics zeroWitness (255 # [7]) =
     DecodeCompressed sampleEnv zeroMetrics zeroWitness (0 # [7])"
proof -
  have a: "gunzip sampleEnv [7] = Inl ErrGunzip"
    by (simp add: sampleEnv_def)
  have b: "rlpDecode sampleEnv [7] = Inl ErrRLP"
    by (simp add: sampleEnv_def)
  show ?thesis
    using a b
      DecodeCompressed_failures [where env = sampleEnv and p = "[7]" and e = ErrGunzip and
        m = zeroMetrics and w = zeroWitness and d = "[]" and marker = 1]
      DecodeCompressed_failures [where env = sampleEnv and p = "[7]" and e = ErrRLP and
        m = zeroMetrics and w = zeroWitness and d = "[]" and marker = 255]
    by auto
qed

theorem EncodeCompressed_DecodeCompressed_roundtrip_witness:
  "1 \<le> CompressionLevel lowThresholdConfig \<and> CompressionLevel lowThresholdConfig \<le> 9 \<and>
   sampleWitness = (if UseDeduplication lowThresholdConfig then Optimize sampleWitness
                    else sampleWitness) \<and>
   rlpEncode sampleEnv (toExtWitness sampleEnv sampleWitness) = Inr [0, 0, 6, 0, 0, 0, 0, 0, 0] \<and>
   rlpDecode sampleEnv [0, 0, 6, 0, 0, 0, 0, 0, 0] = Inr (toExtWitness sampleEnv sampleWitness) \<and>
   set (mapOrder sampleEnv (State sampleWitness)) = State sampleWitness \<and>
   gunzip sampleEnv
     (deflate sampleEnv (CompressionLevel lowThresholdConfig) [0, 0, 6, 0, 0, 0, 0, 0, 0]) =
     Inr [0, 0, 6, 0, 0, 0, 0, 0, 0] \<and>
   (\<exists>marker payload m1 m2.
      EncodeCompressed sampleEnv lowThresholdConfig bufferWrite zeroMetrics [] sampleWitness =
        (None, marker # payload, m1, sampleWitness) \<and>
      (marker = 0 \<or> marker = 1) \<and>
      DecodeCompressed sampleEnv m1 zeroWitness (marker # payload) = (None, sampleWitness, m2))"
proof -
  have h1: "1 \<le> CompressionLevel lowThresholdConfig"
    and h2: "CompressionLevel lowThresholdConfig \<le> 9"
    by (simp_all add: lowThresholdConfig_def)
  have h3: "sampleWitness = (if UseDeduplication lowThresholdConfig then Optimize sampleWitness
                    else sampleWitness)"
    by (simp add: sample_defs Optimize_def)
  have h4: "rlpEncode sampleEnv (toExtWitness sampleEnv sampleWitness) =
      Inr [0, 0, 6, 0, 0, 0, 0, 0, 0]"
    by (simp add: sample_defs toExtWitness_def)
  have h5: "rlpDecode sampleEnv [0, 0, 6, 0, 0, 0, 0, 0, 0] =
      Inr (toExtWitness sampleEnv sampleWitness)"
    by (simp add: sample_defs toExtWitness_def)
  have h6: "set (mapOrder sampleEnv (State sampleWitness)) = State sampleWitness"
    by (simp add: sample_defs)
  have h7: "gunzip sampleEnv
     (deflate sampleEnv (CompressionLevel lowThresholdConfig) [0, 0, 6, 0, 0, 0, 0, 0, 0]) =
     Inr [0, 0, 6, 0, 0, 0, 0, 0, 0]"
    by (simp add: sample_defs replicate_numeral)
  from EncodeCompressed_DecodeCompressed_roundtrip [OF h1 h2 h3 h4 h5 h6 h7, of zeroMetrics zeroWitness]
  have "\<exists>marker payload m1 m2.
      EncodeCompressed sampleEnv lowThresholdConfig bufferWrite zeroMetrics [] sampleWitness =
        (None, marker # payload, m1, sampleWitness) \<and>
      (marker = 0 \<or> marker = 1) \<and>
      DecodeCompressed sampleEnv m1 zeroWitness (marker # payload) = (None, sampleWitness, m2)"
    by blast
  with h1 h2 h3 h4 h5 h6 h7 show ?thesis
    by blast
qed

section \<open>Properties of the dispatcher\<close>

subsection \<open>Page indices\<close>


lemma unat_page_index: "i < 2 ^ 64 \<Longrightarrow> unat (of_nat i :: 64 word) = i"
  by (simp add: unat_of_nat)

lemma sint_page_count: "n < 2 ^ 63 \<Longrightarrow> sint (of_nat n :: 64 word) = int n"
proof -
  assume "n < 2 ^ 63"
  then have "signed_take_bit 63 (int n) = int n"
    by (intro signed_take_bit_int_eq_self) simp_all
  then show ?thesis
    using sint_sbintrunc' [of "int n", where 'a = 64] by simp
qed

lemma page_index_mono:
  assumes "i < j" "j < 2 ^ 64"
  shows "(of_nat i :: 64 word) \<le> of_nat j"
proof -
  have "i < 2 ^ 64" using assms by (rule less_trans)
  then have "unat (of_nat i :: 64 word) = i" by (rule unat_page_index)
  moreover have "unat (of_nat j :: 64 word) = j" using assms(2) by (rule unat_page_index)
  ultimately show ?thesis
    using assms(1) by (simp only: word_le_nat_alt less_imp_le)
qed

lemma page_indices_sorted:
  assumes n: "n \<le> 2 ^ 64"
  shows "sorted (map (of_nat :: nat \<Rightarrow> 64 word) [0 ..< n])"
proof -
  have "sorted_wrt (\<lambda>i j. (of_nat i :: 64 word) \<le> of_nat j) [0 ..< n]"
  proof (rule sorted_wrt_mono_rel [of _ "(<)"])
    fix i j
    assume "i \<in> set [0 ..< n]" "j \<in> set [0 ..< n]" "i < j"
    then have "j < n" by simp
    then have "j < 2 ^ 64" using n by (rule less_le_trans)
    with \<open>i < j\<close> show "(of_nat i :: 64 word) \<le> of_nat j"
      by (rule page_index_mono)
  next
    show "sorted_wrt (<) [0 ..< n]" by simp
  qed
  then show ?thesis by (simp only: sorted_map)
qed

lemma page_indices_inj:
  assumes n: "n \<le> 2 ^ 64"
  shows "inj_on (of_nat :: nat \<Rightarrow> 64 word) {0 ..< n}"
proof (rule inj_onI)
  fix i j
  assume "i \<in> {0 ..< n}" "j \<in> {0 ..< n}"
    and eq: "(of_nat i :: 64 word) = of_nat j"
  then have "i < n" "j < n" by simp_all
  have i: "i < 2 ^ 64" using \<open>i < n\<close> n by (rule less_le_trans)
  have j: "j < 2 ^ 64" using \<open>j < n\<close> n by (rule less_le_trans)
  have "unat (of_nat i :: 64 word) = i" using i by (rule unat_page_index)
  moreover have "unat (of_nat j :: 64 word) = j" using j by (rule unat_page_index)
  ultimately show "i = j" using eq by metis
qed

lemma Page_splitPages: "map Page (splitPages chunks h) = map of_nat [0 ..< length chunks]"
  by (simp add: splitPages_def pageOf_def)

lemma Data_splitPages: "map Data (splitPages chunks h) = chunks"
  by (rule nth_equalityI) (simp_all add: splitPages_def pageOf_def)

lemma sort_splitPages:
  assumes n: "length chunks \<le> 2 ^ 64"
    and perm: "mset pages = mset (splitPages chunks h)"
  shows "sort_key Page pages = splitPages chunks h"
proof (rule sort_key_inj_key_eq [OF perm])
  have "set pages = set (splitPages chunks h)"
    using perm by (rule mset_eq_setD)
  moreover have "inj_on Page (set (splitPages chunks h))"
  proof -
    have "distinct (map of_nat [0 ..< length chunks] :: 64 word list)"
      using page_indices_inj [OF n] by (simp only: distinct_map distinct_upt set_upt simp_thms)
    then have "distinct (map Page (splitPages chunks h))"
      by (simp only: Page_splitPages)
    then show ?thesis by (simp only: distinct_map)
  qed
  ultimately show "inj_on Page (set pages)" by simp
next
  show "sorted (map Page (splitPages chunks h))"
    using page_indices_sorted [OF n] by (simp only: Page_splitPages)
qed

lemma reconstruct_split:
  assumes n: "length chunks \<le> 2 ^ 64"
    and perm: "mset pages = mset (splitPages chunks h)"
    and dec: "rlpDecode (codec env) (concat chunks) = Inr (toExtWitness (codec env) w)"
    and keys: "set (mapOrder (codec env) (State w)) = State w"
  shows "reconstructWitness env pages = (Inr w, splitPages chunks h)"
  using dec keys
  by (simp add: reconstructWitness_def sort_splitPages [OF n perm] Data_splitPages
      DecodeRLP_def fromExt_toExt)

subsection \<open>Reassembly\<close>


lemma page_count_fits: "n < 2 ^ 63 \<Longrightarrow> n \<le> (2 :: nat) ^ 64"
proof -
  assume "n < 2 ^ 63"
  moreover have "(2 :: nat) ^ 63 \<le> 2 ^ 64"
    by (rule power_increasing) simp_all
  ultimately show ?thesis by (meson less_imp_le le_trans)
qed

lemma in_splitPages:
  assumes "x \<in> set (splitPages chunks h)"
  shows "Hash x = h \<and> TotalPages x = of_nat (length chunks) \<and> Data x \<in> set chunks"
  using assms by (auto simp: splitPages_def pageOf_def)

lemma receivePages_split:
  assumes n: "length chunks < 2 ^ 63"
    and nonempty: "[] \<notin> set chunks"
    and dec: "rlpDecode (codec env) (concat chunks) = Inr (toExtWitness (codec env) w)"
    and keys: "set (mapOrder (codec env) (State w)) = State w"
  shows "xs \<noteq> [] \<Longrightarrow> mset (pre @ xs) = mset (splitPages chunks h) \<Longrightarrow>
    receivedWitPages st h = pre \<Longrightarrow>
    receivePages env st xs =
      (None,
       st\<lparr>receivedWitPages := (receivedWitPages st)(h := splitPages chunks h),
          reconstructedWitness := (reconstructedWitness st)(h \<mapsto> w),
          witTotalPages := (witTotalPages st)(h \<mapsto> of_nat (length chunks))\<rparr>,
       length xs)"
proof (induction xs arbitrary: st pre)
  case Nil
  then show ?case by simp
next
  case (Cons x xs)
  have "x \<in># mset (pre @ x # xs)" by simp
  then have "x \<in> set (splitPages chunks h)"
    using Cons.prems(2) by (metis set_mset_mset)
  then have hx: "Hash x = h" and tx: "TotalPages x = of_nat (length chunks)"
    and dx: "Data x \<noteq> []"
    using in_splitPages [of x chunks h] nonempty by auto
  have "length (pre @ x # xs) = length (splitPages chunks h)"
    using Cons.prems(2) by (metis size_mset)
  then have len: "length pre + 1 + length xs = length chunks"
    by (simp add: splitPages_def)
  have st: "sint (TotalPages x) = int (length chunks)"
    using tx sint_page_count [OF n] by simp
  show ?case
  proof (cases "xs = []")
    case True
    then have full: "int (length (receivedWitPages st h @ [x])) = sint (TotalPages x)"
      using len st Cons.prems(3) by simp
    have "mset (pre @ [x]) = mset (splitPages chunks h)"
      using Cons.prems(2) True by simp
    then have rec: "reconstructWitness env (receivedWitPages st h @ [x]) =
        (Inr w, splitPages chunks h)"
      using reconstruct_split [OF page_count_fits [OF n] _ dec keys, of "pre @ [x]" h]
        Cons.prems(3) by simp
    show ?thesis
      using True dx hx tx full rec
      by (simp add: Let_def) (rule batch.equality; simp add: fun_eq_iff)
  next
    case False
    then have "length pre + 1 < length chunks"
      using len by (cases xs) simp_all
    then have part: "int (length (receivedWitPages st h @ [x])) \<noteq> sint (TotalPages x)"
      using st Cons.prems(3) by simp
    define st3 where "st3 =
      st\<lparr>receivedWitPages := (receivedWitPages st)(h := pre @ [x]),
         witTotalPages := (witTotalPages st)(h \<mapsto> of_nat (length chunks))\<rparr>"
    have "mset ((pre @ [x]) @ xs) = mset (splitPages chunks h)"
      using Cons.prems(2) by simp
    moreover have "receivedWitPages st3 h = pre @ [x]"
      by (simp add: st3_def)
    ultimately have ih: "receivePages env st3 xs =
      (None,
       st3\<lparr>receivedWitPages := (receivedWitPages st3)(h := splitPages chunks h),
           reconstructedWitness := (reconstructedWitness st3)(h \<mapsto> w),
           witTotalPages := (witTotalPages st3)(h \<mapsto> of_nat (length chunks))\<rparr>,
       length xs)"
      using Cons.IH [OF False, of "pre @ [x]" st3] by (simp add: fun_upd_def)
    have eq: "receivePages env st (x # xs) =
      (case receivePages env st3 xs of (err, st4, started) \<Rightarrow> (err, st4, Suc started))"
      using dx hx tx part Cons.prems(3) by (simp add: Let_def st3_def)
    show ?thesis
      apply (subst eq)
      apply (subst ih)
      apply (simp add: st3_def; (rule batch.equality; simp add: fun_eq_iff)?)
      done
  qed
qed


lemma receivePages_append:
  "receivePages env st (xs @ ys) =
     (case receivePages env st xs of
        (None, st1, k) \<Rightarrow>
          (case receivePages env st1 ys of (err, st2, k') \<Rightarrow> (err, st2, k + k'))
      | (Some err, st1, k) \<Rightarrow> (Some err, st1, k))"
proof (induction xs arbitrary: st)
  case Nil
  then show ?case by (simp split: prod.splits)
next
  case (Cons x xs)
  show ?case
    by (simp add: Cons.IH Let_def split: prod.splits sum.splits option.splits)
qed


lemma applyEvents_pages:
  "fst (receivePages env st pages) = None \<Longrightarrow>
   applyEvents env hashes st (map pageEvent pages) = fst (snd (receivePages env st pages))"
proof (induction pages arbitrary: st)
  case Nil
  then show ?case by (simp add: applyEvents_def)
next
  case (Cons p ps)
  obtain e1 st1 k1 where one: "receivePages env st [p] = (e1, st1, k1)"
    by (cases "receivePages env st [p]") auto
  have split: "receivePages env st (p # ps) =
     (case receivePages env st [p] of
        (None, st1, k) \<Rightarrow>
          (case receivePages env st1 ps of (err, st2, k') \<Rightarrow> (err, st2, k + k'))
      | (Some err, st1, k) \<Rightarrow> (Some err, st1, k))"
    using receivePages_append [of env st "[p]" ps] by simp
  have whole: "receivePages env st (p # ps) =
     (case e1 of
        None \<Rightarrow> (case receivePages env st1 ps of (err, st2, k') \<Rightarrow> (err, st2, k1 + k'))
      | Some err \<Rightarrow> (Some err, st1, k1))"
    unfolding split one by (simp split: option.splits)
  have e1: "e1 = None"
  proof (cases e1)
    case None
    then show ?thesis .
  next
    case (Some err)
    then have "fst (receivePages env st (p # ps)) = Some err"
      unfolding whole by simp
    then show ?thesis using Cons.prems by simp
  qed
  have whole': "receivePages env st (p # ps) =
     (case receivePages env st1 ps of (err, st2, k') \<Rightarrow> (err, st2, k1 + k'))"
    unfolding whole e1 by simp
  have rest: "fst (receivePages env st1 ps) = None"
    using Cons.prems unfolding whole' by (simp split: prod.splits)
  have "applyEvent env hashes st (pageEvent p) = st1"
    unfolding pageEvent_def applyEvent.simps receiveWitnessPage_def
    by (simp only: witReqRes.simps witResponse.case one e1 prod.case option.case fst_conv snd_conv)
  then have "applyEvents env hashes st (map pageEvent (p # ps)) =
      applyEvents env hashes st1 (map pageEvent ps)"
    by (simp add: applyEvents_def)
  also have "\<dots> = fst (snd (receivePages env st1 ps))"
    using rest by (rule Cons.IH)
  also have "\<dots> = fst (snd (receivePages env st (p # ps)))"
    unfolding whole' by (simp split: prod.splits)
  finally show ?case .
qed


text \<open>
  C1. The serialised bytes of a witness \<open>w\<close> are split into the non-empty pages \<open>chunks\<close>
  (page \<open>i\<close> carries \<open>chunks ! i\<close>, index \<open>i\<close> and the page count), and \<open>pages\<close> is any
  arrival order of these page responses. Then \<open>reconstructWitness\<close> sorts the pages into
  ascending index order (the order of \<open>splitPages\<close>), the concatenation of their payloads
  is the serialised witness, and decoding gives \<open>w\<close>; and when the pages are received in
  the order \<open>pages\<close>, one response each, the dispatcher ends with \<open>w\<close> as the reconstructed
  witness of the hash. The result does not depend on the arrival order.
\<close>

theorem reassembly_any_arrival_order:
  assumes n: "length chunks < 2 ^ 63"
    and some: "chunks \<noteq> []"
    and nonempty: "[] \<notin> set chunks"
    and dec: "rlpDecode (codec env) (concat chunks) = Inr (toExtWitness (codec env) w)"
    and keys: "set (mapOrder (codec env) (State w)) = State w"
    and perm: "mset pages = mset (splitPages chunks h)"
    and fresh: "receivedWitPages st h = []"
  shows "reconstructWitness env pages = (Inr w, splitPages chunks h) \<and>
         map Page (splitPages chunks h) = map of_nat [0 ..< length chunks] \<and>
         concat (map Data (splitPages chunks h)) = concat chunks \<and>
         applyEvents env hashes st (map pageEvent pages) =
           st\<lparr>receivedWitPages := (receivedWitPages st)(h := splitPages chunks h),
              reconstructedWitness := (reconstructedWitness st)(h \<mapsto> w),
              witTotalPages := (witTotalPages st)(h \<mapsto> of_nat (length chunks))\<rparr>"
proof -
  have "length pages = length (splitPages chunks h)"
    using perm by (metis size_mset)
  then have ne: "pages \<noteq> []"
    using some by (auto simp: splitPages_def)
  have perm': "mset ([] @ pages) = mset (splitPages chunks h)"
    using perm by simp
  have all: "receivePages env st pages =
      (None,
       st\<lparr>receivedWitPages := (receivedWitPages st)(h := splitPages chunks h),
          reconstructedWitness := (reconstructedWitness st)(h \<mapsto> w),
          witTotalPages := (witTotalPages st)(h \<mapsto> of_nat (length chunks))\<rparr>,
       length pages)"
    by (rule receivePages_split [OF n nonempty dec keys ne perm' fresh])
  then have "fst (receivePages env st pages) = None"
    by simp
  then have "applyEvents env hashes st (map pageEvent pages) =
      fst (snd (receivePages env st pages))"
    by (rule applyEvents_pages)
  then have ev: "applyEvents env hashes st (map pageEvent pages) =
           st\<lparr>receivedWitPages := (receivedWitPages st)(h := splitPages chunks h),
              reconstructedWitness := (reconstructedWitness st)(h \<mapsto> w),
              witTotalPages := (witTotalPages st)(h \<mapsto> of_nat (length chunks))\<rparr>"
    unfolding all by simp
  have rec: "reconstructWitness env pages = (Inr w, splitPages chunks h)"
    by (rule reconstruct_split [OF page_count_fits [OF n] perm dec keys])
  show ?thesis
    using rec ev Page_splitPages [of chunks h] Data_splitPages [of chunks h] by simp
qed

text \<open>The three sample pages arriving in the order 2, 0, 1.\<close>

lemma sample_split:
  "splitPages sampleChunks 1 =
     [\<lparr>Data = [0, 0, 6], Hash = 1, Page = 0, TotalPages = 3\<rparr>,
      \<lparr>Data = [0, 0, 0], Hash = 1, Page = 1, TotalPages = 3\<rparr>,
      \<lparr>Data = [0, 0, 0], Hash = 1, Page = 2, TotalPages = 3\<rparr>]"
  by (simp add: splitPages_def pageOf_def sampleChunks_def upt_rec [of 0] upt_rec [of 1]
      upt_rec [of 2])

theorem reassembly_any_arrival_order_witness:
  "length sampleChunks < 2 ^ 63 \<and> sampleChunks \<noteq> [] \<and> [] \<notin> set sampleChunks \<and>
   rlpDecode (codec samplePeerEnv) (concat sampleChunks) =
     Inr (toExtWitness (codec samplePeerEnv) sampleWitness) \<and>
   set (mapOrder (codec samplePeerEnv) (State sampleWitness)) = State sampleWitness \<and>
   mset [\<lparr>Data = [0, 0, 0], Hash = 1, Page = 2, TotalPages = 3\<rparr>,
         \<lparr>Data = [0, 0, 6], Hash = 1, Page = 0, TotalPages = 3\<rparr>,
         \<lparr>Data = [0, 0, 0], Hash = 1, Page = 1, TotalPages = 3\<rparr>] =
     mset (splitPages sampleChunks 1) \<and>
   receivedWitPages (emptyBatch :: byte batch) 1 = [] \<and>
   reconstructWitness samplePeerEnv
     [\<lparr>Data = [0, 0, 0], Hash = 1, Page = 2, TotalPages = 3\<rparr>,
      \<lparr>Data = [0, 0, 6], Hash = 1, Page = 0, TotalPages = 3\<rparr>,
      \<lparr>Data = [0, 0, 0], Hash = 1, Page = 1, TotalPages = 3\<rparr>] =
     (Inr sampleWitness, splitPages sampleChunks 1) \<and>
   reconstructedWitness
     (applyEvents samplePeerEnv [1] emptyBatch
        (map pageEvent
           [\<lparr>Data = [0, 0, 0], Hash = 1, Page = 2, TotalPages = 3\<rparr>,
            \<lparr>Data = [0, 0, 6], Hash = 1, Page = 0, TotalPages = 3\<rparr>,
            \<lparr>Data = [0, 0, 0], Hash = 1, Page = 1, TotalPages = 3\<rparr>])) 1 =
     Some sampleWitness"
proof -
  have h1: "length sampleChunks < 2 ^ 63"
    by (simp add: sampleChunks_def)
  have h2: "sampleChunks \<noteq> []" and h3: "[] \<notin> set sampleChunks"
    by (simp_all add: sampleChunks_def)
  have h4: "rlpDecode (codec samplePeerEnv) (concat sampleChunks) =
     Inr (toExtWitness (codec samplePeerEnv) sampleWitness)"
    by (simp add: samplePeerEnv_def sampleChunks_def sample_defs toExtWitness_def)
  have h5: "set (mapOrder (codec samplePeerEnv) (State sampleWitness)) = State sampleWitness"
    by (simp add: samplePeerEnv_def sample_defs)
  have h6: "mset [\<lparr>Data = [0, 0, 0], Hash = 1, Page = 2, TotalPages = 3\<rparr>,
         \<lparr>Data = [0, 0, 6], Hash = 1, Page = 0, TotalPages = 3\<rparr>,
         \<lparr>Data = [0, 0, 0], Hash = 1, Page = 1, TotalPages = 3\<rparr>] =
     mset (splitPages sampleChunks 1)"
    by (simp add: sample_split)
  have h7: "receivedWitPages (emptyBatch :: byte batch) 1 = []"
    by (simp add: emptyBatch_def)
  show ?thesis
    using h1 h2 h3 h4 h5 h6 h7
      reassembly_any_arrival_order [OF h1 h2 h3 h4 h5 h6 h7, of "[1]"]
    by simp
qed


subsection \<open>Page counts reported by the pages\<close>

text \<open>What the loop of \<open>receiveWitnessPage\<close> does with one page that has bytes.\<close>

lemma receivePages_one:
  assumes "Data page \<noteq> []"
  shows "receivePages env st [page] =
    (let pagesOfHash = receivedWitPages st (Hash page) @ [page]
     in if int (length pagesOfHash) = sint (TotalPages page) then
          (case DecodeRLP (codec env) (newWitness env)
                  (concat (map Data (sort_key Page pagesOfHash))) of
             Inl err \<Rightarrow>
               (Some err,
                st\<lparr>receivedWitPages :=
                     (receivedWitPages st)(Hash page := sort_key Page pagesOfHash)\<rparr>, 0)
           | Inr wit \<Rightarrow>
               (None,
                st\<lparr>receivedWitPages :=
                     (receivedWitPages st)(Hash page := sort_key Page pagesOfHash),
                   reconstructedWitness := (reconstructedWitness st)(Hash page \<mapsto> wit),
                   witTotalPages := (witTotalPages st)(Hash page \<mapsto> TotalPages page)\<rparr>, 1))
        else
          (None,
           st\<lparr>receivedWitPages := (receivedWitPages st)(Hash page := pagesOfHash),
              witTotalPages := (witTotalPages st)(Hash page \<mapsto> TotalPages page)\<rparr>, 1))"
  using assms
  by (simp add: Let_def reconstructWitness_def split: sum.splits)

text \<open>
  C4 (amended). The page count a page reports is never compared with the one recorded
  from an earlier page. For a page with bytes, whatever count is recorded for its hash:
  the error outcome, the pages kept and the reconstructed witnesses are the same; when no
  error is returned the recorded count is overwritten with the count this page reports;
  and when the number of pages kept for the hash, this one included, equals the count
  this page reports and the pages decode, the witness of the hash is reconstructed.
\<close>

theorem totalPages_not_compared:
  assumes "Data page \<noteq> []"
  shows "fst (receivePages env (st\<lparr>witTotalPages := recorded\<rparr>) [page]) =
           fst (receivePages env st [page]) \<and>
         reconstructedWitness (fst (snd (receivePages env (st\<lparr>witTotalPages := recorded\<rparr>) [page]))) =
           reconstructedWitness (fst (snd (receivePages env st [page]))) \<and>
         receivedWitPages (fst (snd (receivePages env (st\<lparr>witTotalPages := recorded\<rparr>) [page]))) =
           receivedWitPages (fst (snd (receivePages env st [page]))) \<and>
         (fst (receivePages env st [page]) = None \<longrightarrow>
            witTotalPages (fst (snd (receivePages env st [page]))) (Hash page) =
              Some (TotalPages page)) \<and>
         (int (length (receivedWitPages st (Hash page)) + 1) = sint (TotalPages page) \<and>
          fst (reconstructWitness env (receivedWitPages st (Hash page) @ [page])) = Inr wit \<longrightarrow>
            fst (receivePages env st [page]) = None \<and>
            reconstructedWitness (fst (snd (receivePages env st [page]))) (Hash page) = Some wit)"
  unfolding receivePages_one [OF assms]
  by (simp add: Let_def reconstructWitness_def split: sum.splits)

text \<open>
  Counterexample to C4 as stated: page 0 reports three pages, then page 1 reports two.
  The batch is not failed: two pages are then held and the newest page reports two, so
  the witness is reconstructed from pages 0 and 1 and is part of the aggregate of the
  response.
\<close>

theorem disagreeing_totalPages_counterexample:
  "disagreeingPeer 0 \<lparr>reqHash = 1, reqPage = 0\<rparr> =
     WitnessPacketRLPPacket [\<lparr>Data = [0, 0, 6, 0], Hash = 1, Page = 0, TotalPages = 3\<rparr>] \<and>
   disagreeingPeer 0 \<lparr>reqHash = 1, reqPage = 1\<rparr> =
     WitnessPacketRLPPacket [\<lparr>Data = [0, 0, 0, 0, 0], Hash = 1, Page = 1, TotalPages = 2\<rparr>] \<and>
   map_option witReqs
     (delivered (RequestWitnesses samplePeerEnv [1] (Some disagreeingPeer) (passesFirst 4))) =
     Some [\<lparr>reqHash = 1, reqPage = 0\<rparr>, \<lparr>reqHash = 1, reqPage = 1\<rparr>,
           \<lparr>reqHash = 1, reqPage = 2\<rparr>] \<and>
   aggregate (RequestWitnesses samplePeerEnv [1] (Some disagreeingPeer) (passesFirst 4)) 1 =
     Included sampleWitness"
  by code_simp

theorem totalPages_not_compared_witness:
  "Data \<lparr>Data = [0, 0, 0, 0, 0], Hash = 1, Page = 1, TotalPages = 2\<rparr> \<noteq> [] \<and>
   fst (receivePages samplePeerEnv
          ((emptyBatch :: byte batch)\<lparr>witTotalPages := [1 \<mapsto> 3]\<rparr>)
          [\<lparr>Data = [0, 0, 0, 0, 0], Hash = 1, Page = 1, TotalPages = 2\<rparr>]) =
   fst (receivePages samplePeerEnv emptyBatch
          [\<lparr>Data = [0, 0, 0, 0, 0], Hash = 1, Page = 1, TotalPages = 2\<rparr>]) \<and>
   fst (receivePages samplePeerEnv (emptyBatch :: byte batch)
          [\<lparr>Data = [0, 0, 0, 0, 0], Hash = 1, Page = 1, TotalPages = 2\<rparr>]) = None \<and>
   witTotalPages (fst (snd (receivePages samplePeerEnv (emptyBatch :: byte batch)
          [\<lparr>Data = [0, 0, 0, 0, 0], Hash = 1, Page = 1, TotalPages = 2\<rparr>]))) 1 = Some 2"
proof -
  have ne: "Data \<lparr>Data = [0, 0, 0, 0, 0], Hash = 1, Page = 1, TotalPages = 2\<rparr> \<noteq> []"
    by simp
  have ok: "fst (receivePages samplePeerEnv (emptyBatch :: byte batch)
          [\<lparr>Data = [0, 0, 0, 0, 0], Hash = 1, Page = 1, TotalPages = 2\<rparr>]) = None"
    by (simp add: emptyBatch_def Let_def)
  show ?thesis
    using ne ok
      totalPages_not_compared [OF ne, where env = samplePeerEnv
        and st = "emptyBatch :: byte batch" and recorded = "[1 \<mapsto> 3]"]
    by simp
qed

subsection \<open>Pages without bytes\<close>

lemma receivePages_skips_empty:
  "receivePages env st pages = receivePages env st (filter (\<lambda>page. Data page \<noteq> []) pages)"
proof (induction pages arbitrary: st)
  case Nil
  then show ?case by simp
next
  case (Cons page pages)
  show ?case
  proof (cases "Data page = []")
    case True
    then show ?thesis using Cons.IH [of st] by simp
  next
    case False
    then show ?thesis
      by (simp add: Let_def Cons.IH [symmetric] split: prod.splits sum.splits)
  qed
qed

text \<open>
  C5 (amended). A page response whose payload has zero bytes is skipped: the loop handles
  a packet exactly as it handles the packet without its empty pages, and a response
  whose pages are all empty returns no error, leaves every map as it was (nothing is
  counted in \<open>failedRequests\<close>, the page count is not recorded) and starts no scheduling
  pass, so the page is not requested again.
\<close>

theorem empty_pages_skipped:
  "receivePages env st pages = receivePages env st (filter (\<lambda>page. Data page \<noteq> []) pages) \<and>
   (filter (\<lambda>page. Data page \<noteq> []) pages = [] \<longrightarrow>
      receiveWitnessPage env st \<lparr>Response = WitnessPacketRLPPacket pages, Request = rqs\<rparr> =
        (None, st, 0))"
proof (intro conjI impI)
  show "receivePages env st pages =
      receivePages env st (filter (\<lambda>page. Data page \<noteq> []) pages)"
    by (rule receivePages_skips_empty)
next
  assume "filter (\<lambda>page. Data page \<noteq> []) pages = []"
  then have "receivePages env st pages = (None, st, 0)"
    using receivePages_skips_empty [of env st pages] by simp
  then show "receiveWitnessPage env st
      \<lparr>Response = WitnessPacketRLPPacket pages, Request = rqs\<rparr> = (None, st, 0)"
    by (simp add: receiveWitnessPage_def)
qed

text \<open>
  Counterexample to C5 as stated: the peer answers the request for page 1 with a page of
  zero bytes. The response is sent after three sub-requests (no retry), no failure
  counted, and the witness is missing from its aggregate.
\<close>

theorem empty_page_counterexample:
  "failingPeer chunksWithEmptyPage (\<lambda>p. 0) 0 \<lparr>reqHash = 1, reqPage = 1\<rparr> =
     WitnessPacketRLPPacket [\<lparr>Data = [], Hash = 1, Page = 1, TotalPages = 3\<rparr>] \<and>
   map_option witReqs
     (delivered (RequestWitnesses samplePeerEnv [1]
        (Some (failingPeer chunksWithEmptyPage (\<lambda>p. 0))) (passesFirst 4))) =
     Some [\<lparr>reqHash = 1, reqPage = 0\<rparr>, \<lparr>reqHash = 1, reqPage = 1\<rparr>,
           \<lparr>reqHash = 1, reqPage = 2\<rparr>] \<and>
   map_option failedRequests
     (delivered (RequestWitnesses samplePeerEnv [1]
        (Some (failingPeer chunksWithEmptyPage (\<lambda>p. 0))) (passesFirst 4))) =
     Some [] \<and>
   aggregate (RequestWitnesses samplePeerEnv [1]
      (Some (failingPeer chunksWithEmptyPage (\<lambda>p. 0))) (passesFirst 4)) 1 = Missing"
  by code_simp

theorem empty_pages_skipped_witness:
  "filter (\<lambda>page. Data page \<noteq> [])
     [\<lparr>Data = [], Hash = 1, Page = 1, TotalPages = 3\<rparr>] = [] \<and>
   receiveWitnessPage samplePeerEnv emptyBatch
     \<lparr>Response = WitnessPacketRLPPacket [\<lparr>Data = [], Hash = 1, Page = 1, TotalPages = 3\<rparr>],
      Request = [\<lparr>reqHash = 1, reqPage = 1\<rparr>]\<rparr> = (None, emptyBatch, 0)"
  using empty_pages_skipped [of samplePeerEnv emptyBatch
      "[\<lparr>Data = [], Hash = 1, Page = 1, TotalPages = 3\<rparr>]" "[\<lparr>reqHash = 1, reqPage = 1\<rparr>]"]
  by simp

subsection \<open>Failures and retries\<close>


lemma receivePages_frame':
  "receivePages env st pages = (err, st', k) \<Longrightarrow>
   failedRequests st' = failedRequests st \<and> witTotalRequest st' = witTotalRequest st \<and>
   witReqs st' = witReqs st"
proof (induction pages arbitrary: st err st' k)
  case Nil
  then show ?case by simp
next
  case (Cons page pages)
  show ?case
    using Cons.prems
    by (auto simp add: Let_def split: prod.splits sum.splits if_splits dest!: Cons.IH)
qed

lemma receivePages_frame:
  "failedRequests (fst (snd (receivePages env st pages))) = failedRequests st \<and>
   witTotalRequest (fst (snd (receivePages env st pages))) = witTotalRequest st \<and>
   witReqs (fst (snd (receivePages env st pages))) = witReqs st"
  using receivePages_frame' [of env st pages] by (cases "receivePages env st pages") simp

lemma lookup_update:
  "lookupRetryCount
     (AList.update h' (AList.update q rc (case map_of failed h' of None \<Rightarrow> [] | Some ps \<Rightarrow> ps))
        failed) h p =
   (if h = h' \<and> p = q then rc else lookupRetryCount failed h p)"
  by (auto simp: lookupRetryCount_def update_conv' split: option.splits)

lemma recordFailure_entry:
  "lookupRetryCount (failedRequests (recordFailure st rq)) h p =
     (if h = reqHash rq \<and> p = reqPage rq then
        \<lparr>FailCount = FailCount (lookupRetryCount (failedRequests st) h p) + 1,
         ShouldRetryAgain =
           (sint (FailCount (lookupRetryCount (failedRequests st) h p) + 1) \<le> 2 \<or>
            ShouldRetryAgain (lookupRetryCount (failedRequests st) h p))\<rparr>
      else lookupRetryCount (failedRequests st) h p)"
  by (simp add: recordFailure_def Let_def lookup_update DefaultMaxPagesRequestRetries_def)

lemma recordFailure_frame:
  "witTotalRequest (recordFailure st rq) = witTotalRequest st \<and>
   witReqs (recordFailure st rq) = witReqs st \<and>
   witTotalPages (recordFailure st rq) = witTotalPages st \<and>
   receivedWitPages (recordFailure st rq) = receivedWitPages st \<and>
   reconstructedWitness (recordFailure st rq) = reconstructedWitness st"
  by (simp add: recordFailure_def Let_def)


lemma doWitnessRequest_accept:
  assumes "peerAccepts env \<lparr>reqHash = h, reqPage = page\<rparr>"
  shows "doWitnessRequest env st h page =
    (None,
     st\<lparr>witReqs := witReqs st @ [\<lparr>reqHash = h, reqPage = page\<rparr>],
        witTotalRequest :=
          (if witTotalRequest st h \<le> page
           then (witTotalRequest st)(h := witTotalRequest st h + 1)
           else witTotalRequest st)\<rparr>)"
  using assms by (simp add: doWitnessRequest_def Let_def)

lemma requestPages_fresh:
  assumes accepts: "\<And>rq. peerAccepts env rq"
  shows "unat (witTotalRequest st h) = a \<Longrightarrow> b < 2 ^ 64 \<Longrightarrow>
    requestPages env st h (map of_nat [a ..< b]) =
      (None,
       st\<lparr>witReqs := witReqs st @ map (\<lambda>i. \<lparr>reqHash = h, reqPage = of_nat i\<rparr>) [a ..< b],
          witTotalRequest :=
            (witTotalRequest st)(h := if a < b then of_nat b else witTotalRequest st h)\<rparr>)"
proof (induction "b - a" arbitrary: a st)
  case 0
  then have "[a ..< b] = []" and "\<not> a < b" by simp_all
  then show ?case
    by (simp; (rule batch.equality; auto simp: fun_eq_iff)?)
next
  case (Suc n)
  then have ab: "a < b" by simp
  then have upt: "[a ..< b] = a # [Suc a ..< b]" by (rule upt_conv_Cons)
  have "of_nat (unat (witTotalRequest st h)) = witTotalRequest st h"
    by simp
  then have wa: "witTotalRequest st h = of_nat a"
    using Suc.prems(1) by simp
  define st1 where "st1 =
    st\<lparr>witReqs := witReqs st @ [\<lparr>reqHash = h, reqPage = of_nat a\<rparr>],
       witTotalRequest := (witTotalRequest st)(h := of_nat (Suc a))\<rparr>"
  have step: "doWitnessRequest env st h (of_nat a) = (None, st1)"
    using doWitnessRequest_accept [OF accepts, of st h "of_nat a"] wa
    by (simp add: st1_def add.commute)
  have "Suc a \<le> b" using ab by simp
  then have "Suc a < 2 ^ 64" using Suc.prems(2) by (rule le_less_trans)
  then have "unat (of_nat (Suc a) :: 64 word) = Suc a" by (rule unat_page_index)
  then have u1: "unat (witTotalRequest st1 h) = Suc a" by (simp add: st1_def)
  have n: "n = b - Suc a" using Suc.hyps(2) by simp
  have ih: "requestPages env st1 h (map of_nat [Suc a ..< b]) =
      (None,
       st1\<lparr>witReqs := witReqs st1 @ map (\<lambda>i. \<lparr>reqHash = h, reqPage = of_nat i\<rparr>) [Suc a ..< b],
           witTotalRequest :=
             (witTotalRequest st1)
               (h := if Suc a < b then of_nat b else witTotalRequest st1 h)\<rparr>)"
    by (rule Suc.hyps(1) [OF n u1 Suc.prems(2)])
  have last: "\<not> Suc a < b \<Longrightarrow> Suc a = b" using ab by simp
  show ?case
    unfolding upt
    apply (simp only: list.map requestPages.simps step prod.case option.case ih)
    apply (cases "Suc a < b")
     apply (simp add: st1_def ab)
    apply (drule last)
    apply (simp add: st1_def ab)
    done
qed


lemma count_fresh_pages:
  "b < 2 ^ 64 \<Longrightarrow>
   count_list (map (\<lambda>i. \<lparr>reqHash = h, reqPage = of_nat i\<rparr>) [a ..< b])
     \<lparr>reqHash = h2, reqPage = p\<rparr> =
   (if h2 = h \<and> a \<le> unat p \<and> unat p < b then 1 else 0)"
proof (induction b)
  case 0
  then show ?case by simp
next
  case (Suc b)
  have b: "b < 2 ^ 64" using Suc.prems by (rule Suc_lessD)
  then have ub: "unat (of_nat b :: 64 word) = b" by (rule unat_page_index)
  have eq: "((of_nat b :: 64 word) = p) = (unat p = b)"
  proof
    assume "(of_nat b :: 64 word) = p"
    then show "unat p = b" using ub by simp
  next
    assume "unat p = b"
    then have "of_nat (unat p) = (of_nat b :: 64 word)" by simp
    then show "(of_nat b :: 64 word) = p" by simp
  qed
  show ?case
  proof (cases "a \<le> b")
    case True
    then have "[a ..< Suc b] = [a ..< b] @ [b]" by simp
    then show ?thesis
      using True Suc.IH [OF b] eq by auto
  next
    case False
    then show ?thesis by simp
  qed
qed

lemma word_less_page: "b < 2 ^ 64 \<Longrightarrow> (p < (of_nat b :: 64 word)) = (unat p < b)"
  using unat_page_index [of b] by (simp add: word_less_nat_alt)

lemma requestPages_fresh_effect:
  assumes accepts: "\<And>rq. peerAccepts env rq"
    and a: "a = unat (witTotalRequest st h)"
    and b: "b < 2 ^ 64"
  shows "\<exists>st'. requestPages env st h (map of_nat [a ..< b]) = (None, st') \<and>
      failedRequests st' = failedRequests st \<and>
      witTotalPages st' = witTotalPages st \<and>
      receivedWitPages st' = receivedWitPages st \<and>
      reconstructedWitness st' = reconstructedWitness st \<and>
      (\<forall>x. witTotalRequest st x \<le> witTotalRequest st' x) \<and>
      (\<forall>h2 p. int (count_list (witReqs st') \<lparr>reqHash = h2, reqPage = p\<rparr>) -
                (if p < witTotalRequest st' h2 then 1 else 0) =
              int (count_list (witReqs st) \<lparr>reqHash = h2, reqPage = p\<rparr>) -
                (if p < witTotalRequest st h2 then 1 else 0))"
proof -
  define st' where "st' =
    st\<lparr>witReqs := witReqs st @ map (\<lambda>i. \<lparr>reqHash = h, reqPage = of_nat i\<rparr>) [a ..< b],
       witTotalRequest :=
         (witTotalRequest st)(h := if a < b then of_nat b else witTotalRequest st h)\<rparr>"
  have run: "requestPages env st h (map of_nat [a ..< b]) = (None, st')"
    unfolding st'_def by (rule requestPages_fresh [OF accepts a [symmetric] b])
  have wa: "witTotalRequest st h = of_nat a"
  proof -
    have "of_nat (unat (witTotalRequest st h)) = witTotalRequest st h" by simp
    then show ?thesis using a by simp
  qed
  have mono: "witTotalRequest st x \<le> witTotalRequest st' x" for x
  proof (cases "x = h \<and> a < b")
    case True
    then have "(of_nat a :: 64 word) \<le> of_nat b" using b by (intro page_index_mono) simp_all
    then show ?thesis using True wa by (simp add: st'_def)
  next
    case False
    then show ?thesis by (auto simp: st'_def)
  qed
  have pot: "int (count_list (witReqs st') \<lparr>reqHash = h2, reqPage = p\<rparr>) -
                (if p < witTotalRequest st' h2 then 1 else 0) =
              int (count_list (witReqs st) \<lparr>reqHash = h2, reqPage = p\<rparr>) -
                (if p < witTotalRequest st h2 then 1 else 0)" for h2 p
  proof (cases "h2 = h \<and> a < b")
    case True
    have alt: "a < 2 ^ 64" using True b by (meson less_trans)
    have "(p < witTotalRequest st' h2) = (unat p < b)"
      using True word_less_page [OF b, of p] by (simp add: st'_def)
    moreover have "(p < witTotalRequest st h2) = (unat p < a)"
      using True wa word_less_page [OF alt, of p] by simp
    ultimately show ?thesis
      using True count_fresh_pages [OF b, of h a h2 p] by (auto simp: st'_def)
  next
    case False
    then have "count_list (map (\<lambda>i. \<lparr>reqHash = h, reqPage = of_nat i\<rparr>) [a ..< b])
        \<lparr>reqHash = h2, reqPage = p\<rparr> = 0"
      using count_fresh_pages [OF b, of h a h2 p] by auto
    then show ?thesis using False by (auto simp: st'_def)
  qed
  show ?thesis
    using run mono pot by (intro exI [of _ st']) (simp add: st'_def)
qed


lemma keepsCounts_refl: "keepsCounts st st"
  by (simp add: keepsCounts_def)

lemma keepsCounts_trans: "keepsCounts st st1 \<Longrightarrow> keepsCounts st1 st2 \<Longrightarrow> keepsCounts st st2"
  unfolding keepsCounts_def by (metis order_trans)

lemma requestPages_keepsCounts:
  assumes accepts: "\<And>rq. peerAccepts env rq"
  shows "\<exists>st'. requestPages env st h
            (map of_nat [unat (witTotalRequest st h) ..< unat (endPage :: 64 word)]) =
            (None, st') \<and> keepsCounts st st'"
proof -
  have "unat endPage < 2 ^ LENGTH(64)" by (rule unsigned_less)
  then have b: "unat endPage < 2 ^ 64" by simp
  show ?thesis
    using requestPages_fresh_effect [OF accepts refl b, of st h]
    unfolding keepsCounts_def by blast
qed

lemma requestHashes_keepsCounts:
  assumes accepts: "\<And>rq. peerAccepts env rq"
  shows "\<exists>st'. requestHashes env st hashes = (None, st') \<and> keepsCounts st st'"
proof (induction hashes arbitrary: st)
  case Nil
  then show ?case by (simp add: keepsCounts_refl)
next
  case (Cons h hashes)
  define endPage where "endPage =
    (case witTotalPages st h of
       None \<Rightarrow> DefaultPagesRequestPerWitness
     | Some e \<Rightarrow> if e = 0 then DefaultPagesRequestPerWitness else e)"
  obtain st1 where r1: "requestPages env st h
      (map of_nat [unat (witTotalRequest st h) ..< unat endPage]) = (None, st1)"
    and k1: "keepsCounts st st1"
    using requestPages_keepsCounts [OF accepts, of st h endPage] by blast
  obtain st2 where r2: "requestHashes env st1 hashes = (None, st2)"
    and k2: "keepsCounts st1 st2"
    using Cons.IH [of st1] by blast
  have "requestHashes env st (h # hashes) = (None, st2)"
    using r1 r2 by (simp add: Let_def endPage_def)
  then show ?case
    using keepsCounts_trans [OF k1 k2] by blast
qed


lemma clear_idle: "\<not> ShouldRetryAgain rc \<Longrightarrow> rc\<lparr>ShouldRetryAgain := False\<rparr> = rc"
  by (cases rc) simp

lemma retryPages_effect:
  assumes accepts: "\<And>rq. peerAccepts env rq"
  shows "list_all (\<lambda>(q, rc). q < witTotalRequest st h) entries \<Longrightarrow>
    retryPages env st h entries =
      (None,
       st\<lparr>witReqs := witReqs st @
            map (\<lambda>(q, rc). \<lparr>reqHash = h, reqPage = q\<rparr>)
              (filter (\<lambda>(q, rc). ShouldRetryAgain rc) entries)\<rparr>,
       map (\<lambda>(q, rc). (q, rc\<lparr>ShouldRetryAgain := False\<rparr>)) entries)"
proof (induction entries arbitrary: st)
  case Nil
  then show ?case by simp
next
  case (Cons e entries)
  obtain q rc where e: "e = (q, rc)" by (cases e)
  have q: "q < witTotalRequest st h" and rest: "list_all (\<lambda>(q, rc). q < witTotalRequest st h) entries"
    using Cons.prems e by simp_all
  show ?case
  proof (cases "ShouldRetryAgain rc")
    case True
    define st1 where "st1 = st\<lparr>witReqs := witReqs st @ [\<lparr>reqHash = h, reqPage = q\<rparr>]\<rparr>"
    have "\<not> witTotalRequest st h \<le> q" using q by simp
    then have step: "doWitnessRequest env st h q = (None, st1)"
      using doWitnessRequest_accept [OF accepts, of st h q] by (simp add: st1_def)
    have "list_all (\<lambda>(q, rc). q < witTotalRequest st1 h) entries"
      using rest by (simp add: st1_def)
    then have ih: "retryPages env st1 h entries =
      (None,
       st1\<lparr>witReqs := witReqs st1 @
            map (\<lambda>(q, rc). \<lparr>reqHash = h, reqPage = q\<rparr>)
              (filter (\<lambda>(q, rc). ShouldRetryAgain rc) entries)\<rparr>,
       map (\<lambda>(q, rc). (q, rc\<lparr>ShouldRetryAgain := False\<rparr>)) entries)"
      by (rule Cons.IH)
    show ?thesis
      unfolding e using True
      by (simp add: step ih) (simp add: st1_def)
  next
    case False
    then show ?thesis
      unfolding e using Cons.IH [OF rest] by (simp add: clear_idle)
  qed
qed

lemma retryHashes_effect:
  assumes accepts: "\<And>rq. peerAccepts env rq"
  shows "list_all (\<lambda>(h, entries). list_all (\<lambda>(q, rc). q < witTotalRequest st h) entries) failed \<Longrightarrow>
    retryHashes env st failed =
      (None,
       st\<lparr>witReqs := witReqs st @
            concat (map (\<lambda>(h, entries).
                      map (\<lambda>(q, rc). \<lparr>reqHash = h, reqPage = q\<rparr>)
                        (filter (\<lambda>(q, rc). ShouldRetryAgain rc) entries)) failed)\<rparr>,
       map (\<lambda>(h, entries). (h, map (\<lambda>(q, rc). (q, rc\<lparr>ShouldRetryAgain := False\<rparr>)) entries))
         failed)"
proof (induction failed arbitrary: st)
  case Nil
  then show ?case by simp
next
  case (Cons f failed)
  obtain h entries where f: "f = (h, entries)" by (cases f)
  have here: "list_all (\<lambda>(q, rc). q < witTotalRequest st h) entries"
    and rest: "list_all (\<lambda>(h, entries). list_all (\<lambda>(q, rc). q < witTotalRequest st h) entries) failed"
    using Cons.prems f by simp_all
  define st1 where "st1 =
    st\<lparr>witReqs := witReqs st @
         map (\<lambda>(q, rc). \<lparr>reqHash = h, reqPage = q\<rparr>)
           (filter (\<lambda>(q, rc). ShouldRetryAgain rc) entries)\<rparr>"
  have inner: "retryPages env st h entries =
      (None, st1, map (\<lambda>(q, rc). (q, rc\<lparr>ShouldRetryAgain := False\<rparr>)) entries)"
    unfolding st1_def by (rule retryPages_effect [OF accepts here])
  have "list_all (\<lambda>(h, entries). list_all (\<lambda>(q, rc). q < witTotalRequest st1 h) entries) failed"
    using rest by (simp add: st1_def)
  then have ih: "retryHashes env st1 failed =
      (None,
       st1\<lparr>witReqs := witReqs st1 @
            concat (map (\<lambda>(h, entries).
                      map (\<lambda>(q, rc). \<lparr>reqHash = h, reqPage = q\<rparr>)
                        (filter (\<lambda>(q, rc). ShouldRetryAgain rc) entries)) failed)\<rparr>,
       map (\<lambda>(h, entries). (h, map (\<lambda>(q, rc). (q, rc\<lparr>ShouldRetryAgain := False\<rparr>)) entries))
         failed)"
    by (rule Cons.IH)
  show ?case
    unfolding f by (simp add: inner ih) (simp add: st1_def)
qed

lemma lookup_cleared:
  "lookupRetryCount
     (map (\<lambda>(h, entries). (h, map (\<lambda>(q, rc). (q, rc\<lparr>ShouldRetryAgain := False\<rparr>)) entries))
        failed) h p =
   (lookupRetryCount failed h p)\<lparr>ShouldRetryAgain := False\<rparr>"
  by (simp add: lookupRetryCount_def map_of_map split: option.splits)


lemma count_retry_pages:
  "distinct (map fst entries) \<Longrightarrow>
   count_list (map (\<lambda>(q, rc). \<lparr>reqHash = h', reqPage = q\<rparr>)
                 (filter (\<lambda>(q, rc). ShouldRetryAgain rc) entries))
     \<lparr>reqHash = h, reqPage = p\<rparr> =
   (if h' = h \<and> (case map_of entries p of None \<Rightarrow> False | Some rc \<Rightarrow> ShouldRetryAgain rc)
    then 1 else 0)"
proof (induction entries)
  case Nil
  then show ?case by simp
next
  case (Cons e entries)
  obtain q rc where e: "e = (q, rc)" by (cases e)
  have d: "distinct (map fst entries)" and q: "q \<notin> fst ` set entries"
    using Cons.prems e by simp_all
  have none: "map_of entries q = None"
    using q by (simp add: map_of_eq_None_iff)
  show ?case
    unfolding e using Cons.IH [OF d] none by (auto split: option.splits)
qed

lemma count_retry_other:
  "h \<notin> fst ` set failed \<Longrightarrow>
   count_list (concat (map (\<lambda>(h', entries).
                      map (\<lambda>(q, rc). \<lparr>reqHash = h', reqPage = q\<rparr>)
                        (filter (\<lambda>(q, rc). ShouldRetryAgain rc) entries)) failed))
     \<lparr>reqHash = h, reqPage = p\<rparr> = 0"
proof (induction failed)
  case Nil
  then show ?case by simp
next
  case (Cons f failed)
  obtain h' entries where f: "f = (h', entries)" by (cases f)
  have "h' \<noteq> h" and rest: "h \<notin> fst ` set failed"
    using Cons.prems f by auto
  moreover have "count_list (map (\<lambda>(q, rc). \<lparr>reqHash = h', reqPage = q\<rparr>)
                 (filter (\<lambda>(q, rc). ShouldRetryAgain rc) entries))
     \<lparr>reqHash = h, reqPage = p\<rparr> = 0" if "h' \<noteq> h"
    using that by (induction entries) auto
  ultimately show ?case
    unfolding f using Cons.IH [OF rest] by simp
qed

lemma count_retried:
  "wellFormedFailed failed \<Longrightarrow>
   count_list (concat (map (\<lambda>(h', entries).
                      map (\<lambda>(q, rc). \<lparr>reqHash = h', reqPage = q\<rparr>)
                        (filter (\<lambda>(q, rc). ShouldRetryAgain rc) entries)) failed))
     \<lparr>reqHash = h, reqPage = p\<rparr> =
   (if ShouldRetryAgain (lookupRetryCount failed h p) then 1 else 0)"
proof (induction failed)
  case Nil
  then show ?case by (simp add: lookupRetryCount_def)
next
  case (Cons f failed)
  obtain h' entries where f: "f = (h', entries)" by (cases f)
  have wf: "wellFormedFailed failed" and d: "distinct (map fst entries)"
    and fresh: "h' \<notin> fst ` set failed"
    using Cons.prems f by (simp_all add: wellFormedFailed_def)
  show ?case
  proof (cases "h' = h")
    case True
    then have "count_list (concat (map (\<lambda>(h', entries).
                      map (\<lambda>(q, rc). \<lparr>reqHash = h', reqPage = q\<rparr>)
                        (filter (\<lambda>(q, rc). ShouldRetryAgain rc) entries)) failed))
        \<lparr>reqHash = h, reqPage = p\<rparr> = 0"
      using fresh count_retry_other [of h failed p] by simp
    then show ?thesis
      unfolding f using True count_retry_pages [OF d, of h h p]
      by (simp add: lookupRetryCount_def split: option.splits)
  next
    case False
    then have "count_list (map (\<lambda>(q, rc). \<lparr>reqHash = h', reqPage = q\<rparr>)
                 (filter (\<lambda>(q, rc). ShouldRetryAgain rc) entries))
        \<lparr>reqHash = h, reqPage = p\<rparr> = 0"
      using count_retry_pages [OF d, of h' h p] by simp
    then show ?thesis
      unfolding f using False Cons.IH [OF wf]
      by (simp add: lookupRetryCount_def)
  qed
qed

lemma wellFormed_cleared:
  "wellFormedFailed failed \<Longrightarrow>
   wellFormedFailed
     (map (\<lambda>(h, entries). (h, map (\<lambda>(q, rc). (q, rc\<lparr>ShouldRetryAgain := False\<rparr>)) entries))
        failed)"
  by (induction failed) (auto simp: wellFormedFailed_def comp_def case_prod_beta)

lemma failedWithin_cleared:
  assumes "list_all (\<lambda>(h, entries). list_all (\<lambda>(q, rc). q < w h) entries) failed"
  shows "list_all (\<lambda>(h, entries). list_all (\<lambda>(q, rc). q < w h) entries)
     (map (\<lambda>(h, entries). (h, map (\<lambda>(q, rc). (q, rc\<lparr>ShouldRetryAgain := False\<rparr>)) entries))
        failed)"
  using assms by (induction failed) (auto simp: list_all_iff)

lemma failedWithin_mono:
  assumes "list_all (\<lambda>(h, entries). list_all (\<lambda>(q, rc). q < w h) entries) failed"
    and "\<And>x. w x \<le> (w' x :: 64 word)"
  shows "list_all (\<lambda>(h, entries). list_all (\<lambda>(q, rc). q < w' h) entries) failed"
proof -
  have "q < w' h" if "(h, entries) \<in> set failed" "(q, rc) \<in> set entries" for h entries q rc
  proof -
    have "q < w h" using assms(1) that by (fastforce simp: list_all_iff)
    then show ?thesis using assms(2) [of h] by (rule less_le_trans)
  qed
  then show ?thesis by (fastforce simp: list_all_iff)
qed


lemma buildWitnessRequests_effect:
  assumes accepts: "\<And>rq. peerAccepts env rq"
    and wf: "wellFormedFailed (failedRequests st)"
    and within: "failedWithin st"
  shows "\<exists>st'. buildWitnessRequests env hashes st = (None, st') \<and>
      wellFormedFailed (failedRequests st') \<and> failedWithin st' \<and>
      witTotalPages st' = witTotalPages st \<and>
      receivedWitPages st' = receivedWitPages st \<and>
      reconstructedWitness st' = reconstructedWitness st \<and>
      (\<forall>x. witTotalRequest st x \<le> witTotalRequest st' x) \<and>
      (\<forall>h p. lookupRetryCount (failedRequests st') h p =
             (lookupRetryCount (failedRequests st) h p)\<lparr>ShouldRetryAgain := False\<rparr>) \<and>
      (\<forall>h p. int (count_list (witReqs st') \<lparr>reqHash = h, reqPage = p\<rparr>) -
               (if p < witTotalRequest st' h then 1 else 0) =
             int (count_list (witReqs st) \<lparr>reqHash = h, reqPage = p\<rparr>) -
               (if p < witTotalRequest st h then 1 else 0) +
               (if ShouldRetryAgain (lookupRetryCount (failedRequests st) h p) then 1 else 0))"
proof -
  obtain st1 where r1: "requestHashes env st hashes = (None, st1)" and k1: "keepsCounts st st1"
    using requestHashes_keepsCounts [OF accepts, of st hashes] by blast
  have f1: "failedRequests st1 = failedRequests st"
    and mono1: "\<And>x. witTotalRequest st x \<le> witTotalRequest st1 x"
    and pot1: "\<And>h p. int (count_list (witReqs st1) \<lparr>reqHash = h, reqPage = p\<rparr>) -
               (if p < witTotalRequest st1 h then 1 else 0) =
             int (count_list (witReqs st) \<lparr>reqHash = h, reqPage = p\<rparr>) -
               (if p < witTotalRequest st h then 1 else 0)"
    and fr1: "witTotalPages st1 = witTotalPages st" "receivedWitPages st1 = receivedWitPages st"
      "reconstructedWitness st1 = reconstructedWitness st"
    using k1 by (simp_all add: keepsCounts_def)
  have within1: "list_all (\<lambda>(h, entries). list_all (\<lambda>(q, rc). q < witTotalRequest st1 h) entries)
      (failedRequests st1)"
    unfolding f1
    using within mono1 unfolding failedWithin_def by (rule failedWithin_mono)
  define retried where "retried =
    concat (map (\<lambda>(h, entries).
              map (\<lambda>(q, rc). \<lparr>reqHash = h, reqPage = q\<rparr>)
                (filter (\<lambda>(q, rc). ShouldRetryAgain rc) entries)) (failedRequests st1))"
  define cleared where "cleared =
    map (\<lambda>(h, entries). (h, map (\<lambda>(q, rc). (q, rc\<lparr>ShouldRetryAgain := False\<rparr>)) entries))
      (failedRequests st1)"
  define st2 where "st2 = st1\<lparr>witReqs := witReqs st1 @ retried, failedRequests := cleared\<rparr>"
  have r2: "retryHashes env st1 (failedRequests st1) =
      (None, st1\<lparr>witReqs := witReqs st1 @ retried\<rparr>, cleared)"
    unfolding retried_def cleared_def by (rule retryHashes_effect [OF accepts within1])
  have run: "buildWitnessRequests env hashes st = (None, st2)"
    by (simp add: buildWitnessRequests_def r1 r2 st2_def)
  have wf2: "wellFormedFailed (failedRequests st2)"
    using wf wellFormed_cleared [of "failedRequests st"] by (simp add: st2_def cleared_def f1)
  have within2: "failedWithin st2"
    using failedWithin_cleared [OF within1] by (simp add: failedWithin_def st2_def cleared_def)
  have look: "lookupRetryCount (failedRequests st2) h p =
      (lookupRetryCount (failedRequests st) h p)\<lparr>ShouldRetryAgain := False\<rparr>" for h p
    by (simp add: st2_def cleared_def f1 lookup_cleared)
  have cnt: "count_list retried \<lparr>reqHash = h, reqPage = p\<rparr> =
      (if ShouldRetryAgain (lookupRetryCount (failedRequests st) h p) then 1 else 0)" for h p
    unfolding retried_def f1 by (rule count_retried [OF wf])
  have pot: "int (count_list (witReqs st2) \<lparr>reqHash = h, reqPage = p\<rparr>) -
               (if p < witTotalRequest st2 h then 1 else 0) =
             int (count_list (witReqs st) \<lparr>reqHash = h, reqPage = p\<rparr>) -
               (if p < witTotalRequest st h then 1 else 0) +
               (if ShouldRetryAgain (lookupRetryCount (failedRequests st) h p) then 1 else 0)"
    for h p
    using pot1 [of h p] cnt [of h p] by (simp add: st2_def)
  have mono2: "witTotalRequest st x \<le> witTotalRequest st2 x" for x
    using mono1 [of x] by (simp add: st2_def)
  show ?thesis
    apply (rule exI [of _ st2])
    apply (intro conjI allI)
            apply (rule run)
           apply (rule wf2)
          apply (rule within2)
         apply (simp add: st2_def fr1)
        apply (simp add: st2_def fr1)
       apply (simp add: st2_def fr1)
      apply (rule mono2)
     apply (rule look)
    apply (rule pot)
    done
qed


lemma list_all_update:
  "list_all P al \<Longrightarrow> P (k, v) \<Longrightarrow> list_all P (AList.update k v al)"
  by (induction al) auto

lemma inner_of_failed:
  assumes "list_all (\<lambda>(h, entries). Q h entries) failed" and "Q h []"
  shows "Q h (case map_of failed h of None \<Rightarrow> [] | Some ps \<Rightarrow> ps)"
proof (cases "map_of failed h")
  case None
  then show ?thesis using assms(2) by simp
next
  case (Some ps)
  then have "(h, ps) \<in> set failed" by (rule map_of_SomeD)
  then have "Q h ps" using assms(1) by (auto simp: list_all_iff)
  then show ?thesis using Some by simp
qed

lemma recordFailure_wellFormed:
  assumes "wellFormedFailed (failedRequests st)"
  shows "wellFormedFailed (failedRequests (recordFailure st rq))"
proof -
  have all: "list_all (\<lambda>(h, entries). distinct (map fst entries)) (failedRequests st)"
    and keys: "distinct (map fst (failedRequests st))"
    using assms by (simp_all add: wellFormedFailed_def)
  have "distinct (map fst (case map_of (failedRequests st) (reqHash rq) of
      None \<Rightarrow> [] | Some ps \<Rightarrow> ps))"
    using inner_of_failed [of "\<lambda>h entries. distinct (map fst entries)", OF all] by simp
  then have inner: "\<And>rc. distinct (map fst (AList.update (reqPage rq) rc
      (case map_of (failedRequests st) (reqHash rq) of None \<Rightarrow> [] | Some ps \<Rightarrow> ps)))"
    by (simp add: distinct_update)
  show ?thesis
    unfolding wellFormedFailed_def recordFailure_def Let_def
    using keys all inner by (auto simp: distinct_update intro!: list_all_update)
qed

lemma recordFailure_within:
  assumes "failedWithin st" and "reqPage rq < witTotalRequest st (reqHash rq)"
  shows "failedWithin (recordFailure st rq)"
proof -
  have all: "list_all (\<lambda>(h, entries). list_all (\<lambda>(q, rc). q < witTotalRequest st h) entries)
      (failedRequests st)"
    using assms(1) by (simp add: failedWithin_def)
  have "list_all (\<lambda>(q, rc). q < witTotalRequest st (reqHash rq))
      (case map_of (failedRequests st) (reqHash rq) of None \<Rightarrow> [] | Some ps \<Rightarrow> ps)"
    using inner_of_failed
      [of "\<lambda>h entries. list_all (\<lambda>(q, rc). q < witTotalRequest st h) entries", OF all]
    by simp
  then have inner: "\<And>rc. list_all (\<lambda>(q, rc). q < witTotalRequest st (reqHash rq))
      (AList.update (reqPage rq) rc
        (case map_of (failedRequests st) (reqHash rq) of None \<Rightarrow> [] | Some ps \<Rightarrow> ps))"
    using assms(2) by (auto intro!: list_all_update)
  have "list_all (\<lambda>(h, entries). list_all (\<lambda>(q, rc). q < witTotalRequest st h) entries)
      (AList.update (reqHash rq)
         (AList.update (reqPage rq) rc
            (case map_of (failedRequests st) (reqHash rq) of None \<Rightarrow> [] | Some ps \<Rightarrow> ps))
         (failedRequests st))" for rc
    by (rule list_all_update [OF all]) (simp add: inner)
  then show ?thesis
    by (simp add: failedWithin_def recordFailure_def Let_def)
qed

lemma receiveWitnessPage_effect:
  assumes rq: "Request witRes = [rq]"
  shows "\<exists>err st' k. receiveWitnessPage env st witRes = (err, st', k) \<and>
      witTotalRequest st' = witTotalRequest st \<and> witReqs st' = witReqs st \<and>
      (err = None \<longrightarrow> failedRequests st' = failedRequests st) \<and>
      (err \<noteq> None \<longrightarrow> failedRequests st' = failedRequests (recordFailure st rq))"
proof -
  obtain e1 st1 k1 where inner:
    "(case Response witRes of
        OtherResponse \<Rightarrow> (Some ErrUnexpectedResponseType, st, 0)
      | WitnessPacketRLPPacket pages \<Rightarrow> receivePages env st pages) = (e1, st1, k1)"
    by (metis prod_cases3)
  have frame: "failedRequests st1 = failedRequests st \<and> witTotalRequest st1 = witTotalRequest st \<and>
      witReqs st1 = witReqs st"
  proof (cases "Response witRes")
    case (WitnessPacketRLPPacket pages)
    then show ?thesis
      using inner receivePages_frame' [of env st pages e1 st1 k1] by simp
  next
    case OtherResponse
    then show ?thesis using inner by simp
  qed
  show ?thesis
  proof (cases e1)
    case None
    then have "receiveWitnessPage env st witRes = (None, st1, k1)"
      using inner by (simp add: receiveWitnessPage_def)
    then show ?thesis using frame by simp
  next
    case (Some e)
    then have "receiveWitnessPage env st witRes = (Some e, recordFailure st1 rq, Suc k1)"
      using inner rq by (simp add: receiveWitnessPage_def)
    moreover have "failedRequests (recordFailure st1 rq) = failedRequests (recordFailure st rq)"
      using frame by (simp add: recordFailure_def Let_def)
    ultimately show ?thesis
      using frame recordFailure_frame [of st1 rq] by simp
  qed
qed


lemma failcount_step:
  assumes "unat (fc :: 64 word) \<le> k" and "Suc k < 2 ^ 63"
  shows "unat (fc + 1) = Suc (unat fc) \<and> sint (fc + 1) = int (Suc (unat fc))"
proof -
  have "Suc (unat fc) \<le> Suc k" using assms(1) by simp
  then have n63: "Suc (unat fc) < 2 ^ 63" using assms(2) by (rule le_less_trans)
  have "(2 :: nat) ^ 63 \<le> 2 ^ 64" by (rule power_increasing) simp_all
  with n63 have n64: "Suc (unat fc) < 2 ^ 64" by (rule less_le_trans)
  have "of_nat (Suc (unat fc)) = (of_nat (unat fc) :: 64 word) + 1" by simp
  then have eq: "fc + 1 = of_nat (Suc (unat fc))" by simp
  have "unat (of_nat (Suc (unat fc)) :: 64 word) = Suc (unat fc)"
    using n64 by (rule unat_page_index)
  moreover have "sint (of_nat (Suc (unat fc)) :: 64 word) = int (Suc (unat fc))"
    using n63 by (rule sint_page_count)
  ultimately show ?thesis unfolding eq by simp
qed

lemma retry_arith:
  assumes "int c + (if b then 1 else 0) \<le> (if q then 1 else 0) + int (min n 2)"
  shows "int c + (if int (Suc n) \<le> 2 \<or> b then 1 else 0) \<le>
         (if q then 1 else 0) + int (min (Suc n) 2)"
  using assms by (auto simp: min_def split: if_splits)

lemma retryInvariant_start: "retryInvariant 0 (emptyBatch :: 'h batch) h p"
  by (simp add: retryInvariant_def emptyBatch_def wellFormedFailed_def failedWithin_def
      lookupRetryCount_def)

lemma retryInvariant_later: "retryInvariant k st h p \<Longrightarrow> k \<le> k' \<Longrightarrow> retryInvariant k' st h p"
  by (auto simp: retryInvariant_def)

lemma retryInvariant_pass:
  assumes accepts: "\<And>rq. peerAccepts env rq"
    and inv: "retryInvariant k st h p"
  shows "retryInvariant k (applyEvent env hashes st Pass) h p"
proof -
  have wf: "wellFormedFailed (failedRequests st)" and within: "failedWithin st"
    using inv by (simp_all add: retryInvariant_def)
  obtain st' where run: "buildWitnessRequests env hashes st = (None, st')"
    and wf': "wellFormedFailed (failedRequests st')" and within': "failedWithin st'"
    and look: "lookupRetryCount (failedRequests st') h p =
             (lookupRetryCount (failedRequests st) h p)\<lparr>ShouldRetryAgain := False\<rparr>"
    and pot: "int (count_list (witReqs st') \<lparr>reqHash = h, reqPage = p\<rparr>) -
               (if p < witTotalRequest st' h then 1 else 0) =
             int (count_list (witReqs st) \<lparr>reqHash = h, reqPage = p\<rparr>) -
               (if p < witTotalRequest st h then 1 else 0) +
               (if ShouldRetryAgain (lookupRetryCount (failedRequests st) h p) then 1 else 0)"
    using buildWitnessRequests_effect [OF accepts wf within, of hashes] by blast
  have "applyEvent env hashes st Pass = st'"
    using run by simp
  moreover have "retryInvariant k st' h p"
    using inv wf' within' pot unfolding retryInvariant_def look by simp
  ultimately show ?thesis by simp
qed

lemma retryInvariant_handle:
  assumes inv: "retryInvariant k st h p"
    and valid: "answersRequested st (Handle witRes)"
    and k: "Suc k < 2 ^ 63"
  shows "retryInvariant (Suc k) (applyEvent env hashes st (Handle witRes)) h p"
proof -
  obtain rq where rq: "Request witRes = [rq]"
    and req: "reqPage rq < witTotalRequest st (reqHash rq)"
    using valid by (auto simp: answersRequested_def split: list.splits)
  obtain err st' n where run: "receiveWitnessPage env st witRes = (err, st', n)"
    and w: "witTotalRequest st' = witTotalRequest st" and r: "witReqs st' = witReqs st"
    and ok: "err = None \<longrightarrow> failedRequests st' = failedRequests st"
    and ko: "err \<noteq> None \<longrightarrow> failedRequests st' = failedRequests (recordFailure st rq)"
    using receiveWitnessPage_effect [OF rq, of env st] by blast
  have st': "applyEvent env hashes st (Handle witRes) = st'"
    using run by simp
  have wf: "wellFormedFailed (failedRequests st)" and within: "failedWithin st"
    and fc: "unat (FailCount (lookupRetryCount (failedRequests st) h p)) \<le> k"
    and cnt: "int (count_list (witReqs st) \<lparr>reqHash = h, reqPage = p\<rparr>) +
        (if ShouldRetryAgain (lookupRetryCount (failedRequests st) h p) then 1 else 0) \<le>
      (if p < witTotalRequest st h then 1 else 0) +
        int (min (unat (FailCount (lookupRetryCount (failedRequests st) h p))) 2)"
    using inv by (simp_all add: retryInvariant_def)
  show ?thesis
  proof (cases "err = None")
    case True
    then have "failedRequests st' = failedRequests st" using ok by simp
    then have "retryInvariant k st' h p"
      using inv w r by (simp add: retryInvariant_def failedWithin_def)
    then show ?thesis unfolding st' by (rule retryInvariant_later) simp
  next
    case False
    then have f: "failedRequests st' = failedRequests (recordFailure st rq)" using ko by simp
    have wf': "wellFormedFailed (failedRequests st')"
      unfolding f using wf by (rule recordFailure_wellFormed)
    have "failedWithin (recordFailure st rq)"
      using within req by (rule recordFailure_within)
    then have within': "failedWithin st'"
      using w recordFailure_frame [of st rq] by (simp add: failedWithin_def f)
    show ?thesis
    proof (cases "h = reqHash rq \<and> p = reqPage rq")
      case True
      define old where "old = lookupRetryCount (failedRequests st) h p"
      have new: "lookupRetryCount (failedRequests st') h p =
          \<lparr>FailCount = FailCount old + 1,
           ShouldRetryAgain = (sint (FailCount old + 1) \<le> 2 \<or> ShouldRetryAgain old)\<rparr>"
        unfolding f old_def using True by (simp add: recordFailure_entry)
      have step: "unat (FailCount old + 1) = Suc (unat (FailCount old))"
        and sstep: "sint (FailCount old + 1) = int (Suc (unat (FailCount old)))"
        using failcount_step [OF fc [folded old_def] k] by simp_all
      have fcn: "FailCount (lookupRetryCount (failedRequests st') h p) = FailCount old + 1"
        and fln: "ShouldRetryAgain (lookupRetryCount (failedRequests st') h p) =
          (int (Suc (unat (FailCount old))) \<le> 2 \<or> ShouldRetryAgain old)"
        unfolding new sstep [symmetric] by simp_all
      have "int (count_list (witReqs st) \<lparr>reqHash = h, reqPage = p\<rparr>) +
          (if int (Suc (unat (FailCount old))) \<le> 2 \<or> ShouldRetryAgain old then 1 else 0) \<le>
          (if p < witTotalRequest st h then 1 else 0) +
          int (min (Suc (unat (FailCount old))) 2)"
        using cnt [folded old_def] by (rule retry_arith)
      then have ineq: "int (count_list (witReqs st') \<lparr>reqHash = h, reqPage = p\<rparr>) +
          (if ShouldRetryAgain (lookupRetryCount (failedRequests st') h p) then 1 else 0) \<le>
          (if p < witTotalRequest st' h then 1 else 0) +
          int (min (unat (FailCount (lookupRetryCount (failedRequests st') h p))) 2)"
        unfolding fcn fln step r w .
      have "unat (FailCount (lookupRetryCount (failedRequests st') h p)) \<le> Suc k"
        unfolding fcn step using fc [folded old_def] by simp
      then have "retryInvariant (Suc k) st' h p"
        unfolding retryInvariant_def using wf' within' ineq by (intro conjI)
      then show ?thesis unfolding st' .
    next
      case False
      then have "lookupRetryCount (failedRequests st') h p =
          lookupRetryCount (failedRequests st) h p"
        unfolding f recordFailure_entry by (simp only: if_False)
      then have "retryInvariant k st' h p"
        using wf' within' fc cnt w r by (simp add: retryInvariant_def)
      then show ?thesis unfolding st' by (rule retryInvariant_later) simp
    qed
  qed
qed


lemma retryInvariant_events:
  assumes accepts: "\<And>rq. peerAccepts env rq"
  shows "validEvents env hashes st events \<Longrightarrow> retryInvariant k st h p \<Longrightarrow>
    k + length events < 2 ^ 63 \<Longrightarrow>
    retryInvariant (k + length events) (applyEvents env hashes st events) h p"
proof (induction events arbitrary: st k)
  case Nil
  then show ?case by (simp add: applyEvents_def)
next
  case (Cons ev events)
  have valid: "answersRequested st ev"
    and rest: "validEvents env hashes (applyEvent env hashes st ev) events"
    using Cons.prems(1) by simp_all
  have "Suc k \<le> k + length (ev # events)" by simp
  then have k: "Suc k < 2 ^ 63" using Cons.prems(3) by (rule le_less_trans)
  have inv1: "retryInvariant (Suc k) (applyEvent env hashes st ev) h p"
  proof (cases ev)
    case (Handle witRes)
    then show ?thesis
      using retryInvariant_handle [OF Cons.prems(2) _ k, of witRes env hashes] valid by simp
  next
    case Pass
    have "retryInvariant k (applyEvent env hashes st Pass) h p"
      using accepts Cons.prems(2) by (rule retryInvariant_pass)
    then show ?thesis unfolding Pass by (rule retryInvariant_later) simp
  qed
  have len: "Suc k + length events = k + length (ev # events)" by simp
  have "Suc k + length events < 2 ^ 63"
    unfolding len by (rule Cons.prems(3))
  then have "retryInvariant (Suc k + length events)
      (applyEvents env hashes (applyEvent env hashes st ev) events) h p"
    by (rule Cons.IH [OF rest inv1])
  then show ?case
    unfolding len by (simp add: applyEvents_def)
qed

lemma retryInvariant_bound:
  assumes "retryInvariant k st h p"
  shows "count_list (witReqs st) \<lparr>reqHash = h, reqPage = p\<rparr> \<le> 3"
proof -
  have "int (count_list (witReqs st) \<lparr>reqHash = h, reqPage = p\<rparr>) +
        (if ShouldRetryAgain (lookupRetryCount (failedRequests st) h p) then 1 else 0) \<le>
      (if p < witTotalRequest st h then 1 else 0) +
        int (min (unat (FailCount (lookupRetryCount (failedRequests st) h p))) 2)"
    using assms by (simp add: retryInvariant_def)
  moreover have "int (min (unat (FailCount (lookupRetryCount (failedRequests st) h p))) 2) \<le> 2"
    by simp
  ultimately show ?thesis by (simp split: if_splits)
qed

lemma retry_rule:
  assumes accepts: "\<And>rq. peerAccepts env rq"
    and wf: "wellFormedFailed (failedRequests st)"
    and within: "failedWithin st"
    and requested: "p < witTotalRequest st h"
    and idle: "\<not> ShouldRetryAgain (lookupRetryCount (failedRequests st) h p)"
    and rq: "Request witRes = [\<lparr>reqHash = h, reqPage = p\<rparr>]"
    and failed: "fst (receiveWitnessPage env st witRes) \<noteq> None"
  shows "FailCount (lookupRetryCount
             (failedRequests (applyEvent env hashes st (Handle witRes))) h p) =
           FailCount (lookupRetryCount (failedRequests st) h p) + 1 \<and>
         count_list
           (witReqs (applyEvent env hashes (applyEvent env hashes st (Handle witRes)) Pass))
           \<lparr>reqHash = h, reqPage = p\<rparr> =
           count_list (witReqs st) \<lparr>reqHash = h, reqPage = p\<rparr> +
           (if sint (FailCount (lookupRetryCount (failedRequests st) h p) + 1) \<le>
               DefaultMaxPagesRequestRetries then 1 else 0) \<and>
         lookupRetryCount
           (failedRequests
              (applyEvent env hashes (applyEvent env hashes st (Handle witRes)) Pass)) h p =
           \<lparr>FailCount = FailCount (lookupRetryCount (failedRequests st) h p) + 1,
            ShouldRetryAgain = False\<rparr>"
proof -
  define rq0 where "rq0 = \<lparr>reqHash = h, reqPage = p\<rparr>"
  obtain err st1 n where run: "receiveWitnessPage env st witRes = (err, st1, n)"
    and w: "witTotalRequest st1 = witTotalRequest st" and r: "witReqs st1 = witReqs st"
    and ko: "err \<noteq> None \<longrightarrow> failedRequests st1 = failedRequests (recordFailure st rq0)"
    using receiveWitnessPage_effect [OF rq, of env st] unfolding rq0_def by blast
  have "err \<noteq> None" using failed run by simp
  then have f: "failedRequests st1 = failedRequests (recordFailure st rq0)" using ko by simp
  have st1: "applyEvent env hashes st (Handle witRes) = st1" using run by simp
  define old where "old = lookupRetryCount (failedRequests st) h p"
  have new: "lookupRetryCount (failedRequests st1) h p =
      \<lparr>FailCount = FailCount old + 1, ShouldRetryAgain = (sint (FailCount old + 1) \<le> 2)\<rparr>"
    unfolding f old_def using idle by (simp add: recordFailure_entry rq0_def)
  have wf1: "wellFormedFailed (failedRequests st1)"
    unfolding f using wf by (rule recordFailure_wellFormed)
  have "failedWithin (recordFailure st rq0)"
    using within requested by (intro recordFailure_within) (simp_all add: rq0_def)
  then have within1: "failedWithin st1"
    using w recordFailure_frame [of st rq0] by (simp add: failedWithin_def f)
  obtain st2 where run2: "buildWitnessRequests env hashes st1 = (None, st2)"
    and mono: "\<And>x. witTotalRequest st1 x \<le> witTotalRequest st2 x"
    and look: "lookupRetryCount (failedRequests st2) h p =
             (lookupRetryCount (failedRequests st1) h p)\<lparr>ShouldRetryAgain := False\<rparr>"
    and pot: "int (count_list (witReqs st2) \<lparr>reqHash = h, reqPage = p\<rparr>) -
               (if p < witTotalRequest st2 h then 1 else 0) =
             int (count_list (witReqs st1) \<lparr>reqHash = h, reqPage = p\<rparr>) -
               (if p < witTotalRequest st1 h then 1 else 0) +
               (if ShouldRetryAgain (lookupRetryCount (failedRequests st1) h p) then 1 else 0)"
    using buildWitnessRequests_effect [OF accepts wf1 within1, of hashes] by blast
  have st2: "applyEvent env hashes st1 Pass = st2" using run2 by simp
  have p1: "p < witTotalRequest st1 h" using requested w by simp
  then have p2: "p < witTotalRequest st2 h" using mono [of h] by (rule less_le_trans)
  have cnt: "count_list (witReqs st2) \<lparr>reqHash = h, reqPage = p\<rparr> =
      count_list (witReqs st) \<lparr>reqHash = h, reqPage = p\<rparr> +
      (if sint (FailCount old + 1) \<le> 2 then 1 else 0)"
    using pot p1 p2 r by (simp add: new split: if_splits)
  show ?thesis
    unfolding st1 st2 old_def [symmetric]
    using cnt new look by (simp add: DefaultMaxPagesRequestRetries_def)
qed


text \<open>
  The retry ceiling, with a peer that takes every sub-request:
  \<^item> from the empty batch, through any sequence of scheduling passes and of responses to
    pages already counted as requested, every page is requested at most
    \<open>1 + DefaultMaxPagesRequestRetries\<close> times: once, and at most two more times after
    failures;
  \<^item> when the response to the sub-request of a requested page with no retry pending is a
    failure, its failure count goes up by one, and the scheduling pass that follows
    requests the page again exactly when the new count is at most
    \<open>DefaultMaxPagesRequestRetries\<close>; the pass leaves no retry pending.
\<close>

lemma retry_ceiling:
  assumes accepts: "\<And>rq. peerAccepts env rq"
  shows "(validEvents env hashes emptyBatch events \<and> length events < 2 ^ 63 \<longrightarrow>
            count_list (witReqs (applyEvents env hashes emptyBatch events))
              \<lparr>reqHash = h, reqPage = p\<rparr> \<le> 1 + nat DefaultMaxPagesRequestRetries) \<and>
         (wellFormedFailed (failedRequests st) \<and> failedWithin st \<and>
          p < witTotalRequest st h \<and>
          \<not> ShouldRetryAgain (lookupRetryCount (failedRequests st) h p) \<and>
          Request witRes = [\<lparr>reqHash = h, reqPage = p\<rparr>] \<and>
          fst (receiveWitnessPage env st witRes) \<noteq> None \<longrightarrow>
            FailCount (lookupRetryCount
                (failedRequests (applyEvent env hashes st (Handle witRes))) h p) =
              FailCount (lookupRetryCount (failedRequests st) h p) + 1 \<and>
            count_list
              (witReqs (applyEvent env hashes (applyEvent env hashes st (Handle witRes)) Pass))
              \<lparr>reqHash = h, reqPage = p\<rparr> =
              count_list (witReqs st) \<lparr>reqHash = h, reqPage = p\<rparr> +
              (if sint (FailCount (lookupRetryCount (failedRequests st) h p) + 1) \<le>
                  DefaultMaxPagesRequestRetries then 1 else 0) \<and>
            lookupRetryCount
              (failedRequests
                 (applyEvent env hashes (applyEvent env hashes st (Handle witRes)) Pass)) h p =
              \<lparr>FailCount = FailCount (lookupRetryCount (failedRequests st) h p) + 1,
               ShouldRetryAgain = False\<rparr>)"
proof (intro conjI impI)
  assume a: "validEvents env hashes emptyBatch events \<and> length events < 2 ^ 63"
  then have "0 + length events < 2 ^ 63" by simp
  then have "retryInvariant (0 + length events) (applyEvents env hashes emptyBatch events) h p"
    using a retryInvariant_events [OF accepts _ retryInvariant_start, of hashes events h p]
    by blast
  then have "count_list (witReqs (applyEvents env hashes emptyBatch events))
      \<lparr>reqHash = h, reqPage = p\<rparr> \<le> 3"
    by (rule retryInvariant_bound)
  then show "count_list (witReqs (applyEvents env hashes emptyBatch events))
      \<lparr>reqHash = h, reqPage = p\<rparr> \<le> 1 + nat DefaultMaxPagesRequestRetries"
    by (simp add: DefaultMaxPagesRequestRetries_def)
next
  assume b: "wellFormedFailed (failedRequests st) \<and> failedWithin st \<and>
          p < witTotalRequest st h \<and>
          \<not> ShouldRetryAgain (lookupRetryCount (failedRequests st) h p) \<and>
          Request witRes = [\<lparr>reqHash = h, reqPage = p\<rparr>] \<and>
          fst (receiveWitnessPage env st witRes) \<noteq> None"
  note rule = retry_rule [OF accepts, of st p h witRes hashes]
  show "FailCount (lookupRetryCount
                (failedRequests (applyEvent env hashes st (Handle witRes))) h p) =
              FailCount (lookupRetryCount (failedRequests st) h p) + 1"
    using b rule by blast
  show "count_list
              (witReqs (applyEvent env hashes (applyEvent env hashes st (Handle witRes)) Pass))
              \<lparr>reqHash = h, reqPage = p\<rparr> =
              count_list (witReqs st) \<lparr>reqHash = h, reqPage = p\<rparr> +
              (if sint (FailCount (lookupRetryCount (failedRequests st) h p) + 1) \<le>
                  DefaultMaxPagesRequestRetries then 1 else 0)"
    using b rule by blast
  show "lookupRetryCount
              (failedRequests
                 (applyEvent env hashes (applyEvent env hashes st (Handle witRes)) Pass)) h p =
              \<lparr>FailCount = FailCount (lookupRetryCount (failedRequests st) h p) + 1,
               ShouldRetryAgain = False\<rparr>"
    using b rule by blast
qed

text \<open>The sample events: three failures of the probe page give three sub-requests for it.\<close>

lemma sample_accepts: "peerAccepts samplePeerEnv rq"
  by (simp add: samplePeerEnv_def)

lemma threeFailures_valid: "validEvents samplePeerEnv [1] emptyBatch threeFailures"
  by code_simp

lemma threeFailures_count:
  "count_list (witReqs (applyEvents samplePeerEnv [1] emptyBatch threeFailures))
     \<lparr>reqHash = 1, reqPage = 0\<rparr> = 3"
  by code_simp

lemma firstPass_premises:
  "wellFormedFailed (failedRequests (applyEvent samplePeerEnv [1] emptyBatch Pass)) \<and>
   failedWithin (applyEvent samplePeerEnv [1] emptyBatch Pass) \<and>
   0 < witTotalRequest (applyEvent samplePeerEnv [1] emptyBatch Pass) 1 \<and>
   \<not> ShouldRetryAgain
       (lookupRetryCount (failedRequests (applyEvent samplePeerEnv [1] emptyBatch Pass)) 1 0) \<and>
   Request failedProbe = [\<lparr>reqHash = 1, reqPage = 0\<rparr>] \<and>
   fst (receiveWitnessPage samplePeerEnv (applyEvent samplePeerEnv [1] emptyBatch Pass)
          failedProbe) \<noteq> None \<and>
   count_list (witReqs (applyEvent samplePeerEnv [1] emptyBatch Pass))
     \<lparr>reqHash = 1, reqPage = 0\<rparr> = 1 \<and>
   sint (FailCount
           (lookupRetryCount (failedRequests (applyEvent samplePeerEnv [1] emptyBatch Pass))
              1 0) + 1) \<le> DefaultMaxPagesRequestRetries"
  by code_simp

lemma retry_ceiling_sample:
  "validEvents samplePeerEnv [1] emptyBatch threeFailures \<and>
   length threeFailures < 2 ^ 63 \<and>
   count_list (witReqs (applyEvents samplePeerEnv [1] emptyBatch threeFailures))
     \<lparr>reqHash = 1, reqPage = 0\<rparr> \<le> 1 + nat DefaultMaxPagesRequestRetries \<and>
   count_list (witReqs (applyEvents samplePeerEnv [1] emptyBatch threeFailures))
     \<lparr>reqHash = 1, reqPage = 0\<rparr> = 3 \<and>
   wellFormedFailed (failedRequests (applyEvent samplePeerEnv [1] emptyBatch Pass)) \<and>
   failedWithin (applyEvent samplePeerEnv [1] emptyBatch Pass) \<and>
   0 < witTotalRequest (applyEvent samplePeerEnv [1] emptyBatch Pass) 1 \<and>
   \<not> ShouldRetryAgain
       (lookupRetryCount (failedRequests (applyEvent samplePeerEnv [1] emptyBatch Pass)) 1 0) \<and>
   Request failedProbe = [\<lparr>reqHash = 1, reqPage = 0\<rparr>] \<and>
   fst (receiveWitnessPage samplePeerEnv (applyEvent samplePeerEnv [1] emptyBatch Pass)
          failedProbe) \<noteq> None \<and>
   count_list
     (witReqs (applyEvent samplePeerEnv [1]
        (applyEvent samplePeerEnv [1] (applyEvent samplePeerEnv [1] emptyBatch Pass)
           (Handle failedProbe)) Pass))
     \<lparr>reqHash = 1, reqPage = 0\<rparr> = 2"
proof -
  have len: "length threeFailures < 2 ^ 63"
    by (simp add: threeFailures_def)
  note inst = retry_ceiling [of samplePeerEnv "[1]" threeFailures 1 0
      "applyEvent samplePeerEnv [1] emptyBatch Pass" failedProbe, OF sample_accepts]
  have bound: "count_list (witReqs (applyEvents samplePeerEnv [1] emptyBatch threeFailures))
     \<lparr>reqHash = 1, reqPage = 0\<rparr> \<le> 1 + nat DefaultMaxPagesRequestRetries"
    using threeFailures_valid len inst by blast
  have "count_list
     (witReqs (applyEvent samplePeerEnv [1]
        (applyEvent samplePeerEnv [1] (applyEvent samplePeerEnv [1] emptyBatch Pass)
           (Handle failedProbe)) Pass))
     \<lparr>reqHash = 1, reqPage = 0\<rparr> =
     count_list (witReqs (applyEvent samplePeerEnv [1] emptyBatch Pass))
       \<lparr>reqHash = 1, reqPage = 0\<rparr> +
     (if sint (FailCount
           (lookupRetryCount (failedRequests (applyEvent samplePeerEnv [1] emptyBatch Pass))
              1 0) + 1) \<le> DefaultMaxPagesRequestRetries then 1 else 0)"
    using firstPass_premises inst by blast
  then have again: "count_list
     (witReqs (applyEvent samplePeerEnv [1]
        (applyEvent samplePeerEnv [1] (applyEvent samplePeerEnv [1] emptyBatch Pass)
           (Handle failedProbe)) Pass))
     \<lparr>reqHash = 1, reqPage = 0\<rparr> = 2"
    using firstPass_premises by simp
  show ?thesis
    using threeFailures_valid len bound threeFailures_count firstPass_premises again
    by blast
qed



subsection \<open>Runs under any schedule\<close>

text \<open>
  The responses not yet handled never outnumber the permits: at most
  \<open>DefaultConcurrentRequestsPerPeer\<close> sub-requests are in flight at any point of any run.
\<close>

lemma passStep_permits:
  assumes step: "passStep env peer hashes d pos = Some d1" and held: "permitsHeld d"
  shows "permitsHeld d1"
  using step held
  by (cases "(env, peer, hashes, d, pos)" rule: passStep.cases)
     (auto simp add: permitsHeld_def Let_def sendWitnessRequest_def doWitnessRequest_def
        split: if_splits prod.splits option.splits)

lemma adapterStep_permits:
  assumes step: "adapterStep env d i = Some d1" and held: "permitsHeld d"
  shows "permitsHeld d1"
  using step held
  by (auto simp add: permitsHeld_def adapterStep_def split: if_splits prod.splits)

lemma runTurns_permits:
  "permitsHeld d \<Longrightarrow> permitsHeld (runTurns env peer hashes d turns)"
proof (induction turns arbitrary: d)
  case Nil
  then show ?case by (simp add: runTurns_def)
next
  case (Cons t turns)
  have one: "permitsHeld (takeTurn env peer hashes d t)"
    using Cons.prems passStep_permits [of env peer hashes d "building d"]
      adapterStep_permits [of env d]
    by (auto simp add: takeTurn_def split: turn.splits option.splits)
  have "runTurns env peer hashes d (t # turns) =
      runTurns env peer hashes (takeTurn env peer hashes d t) turns"
    by (simp add: runTurns_def)
  then show ?case using Cons.IH [OF one] by simp
qed

lemma permits_in_every_run:
  "length (awaited (runTurns env peer hashes initialDispatch turns)) \<le>
     DefaultConcurrentRequestsPerPeer"
proof -
  have "permitsHeld (initialDispatch :: 'a dispatch)"
    by (simp add: permitsHeld_def initialDispatch_def)
  then have "permitsHeld (runTurns env peer hashes initialDispatch turns)"
    by (rule runTurns_permits)
  then show ?thesis by (simp add: permitsHeld_def)
qed

text \<open>
  Pages are only ever added to those held for a hash. A reconstruction that fails leaves
  the page that completed the count among them; from then on the count has been reached
  or passed, and as long as the pages of the peer report the same page count the hash is
  never reconstructed, whatever the schedule and however often a page is asked for again.
\<close>

lemma failed_reconstruction_keeps_page:
  assumes "receivePages env st [page] = (Some err, st', k)"
  shows "int (length (receivedWitPages st' (Hash page))) = sint (TotalPages page) \<and>
         mset (receivedWitPages st' (Hash page)) =
           mset (receivedWitPages st (Hash page)) + {#page#} \<and>
         reconstructedWitness st' = reconstructedWitness st"
proof -
  have ne: "Data page \<noteq> []" using assms by (auto split: if_splits)
  show ?thesis
    using assms ne
    by (auto simp add: Let_def reconstructWitness_def split: if_splits sum.splits)
qed

lemma receivePages_overfull:
  "receivePages env st pages = (err, st', k) \<Longrightarrow>
   \<forall>page\<in>set pages. Hash page = h \<longrightarrow> TotalPages page = T \<Longrightarrow>
   sint T \<le> int (length (receivedWitPages st h)) \<Longrightarrow>
   reconstructedWitness st' h = reconstructedWitness st h \<and>
   sint T \<le> int (length (receivedWitPages st' h))"
proof (induction pages arbitrary: st err st' k)
  case Nil
  then show ?case by simp
next
  case (Cons page pages)
  have rest: "\<forall>page\<in>set pages. Hash page = h \<longrightarrow> TotalPages page = T"
    using Cons.prems(2) by simp
  show ?case
  proof (cases "Data page = []")
    case True
    then show ?thesis using Cons.prems(1,3) Cons.IH [OF _ rest] by simp
  next
    case False
    show ?thesis
    proof (cases "Hash page = h")
      case True
      then have T: "TotalPages page = T" using Cons.prems(2) by simp
      have ne: "int (length (receivedWitPages st h @ [page])) \<noteq> sint T"
        using Cons.prems(3) by simp
      define st1 where "st1 =
        st\<lparr>receivedWitPages := (receivedWitPages st)(h := receivedWitPages st h @ [page]),
           witTotalPages := (witTotalPages st)(h \<mapsto> T)\<rparr>"
      obtain e2 st2 k2 where r: "receivePages env st1 pages = (e2, st2, k2)"
        by (metis prod_cases3)
      have full: "sint T \<le> int (length (receivedWitPages st1 h))"
        using Cons.prems(3) by (simp add: st1_def)
      have eq: "receivePages env st (page # pages) = (e2, st2, Suc k2)"
        using False True T ne r by (simp add: Let_def st1_def)
      have "reconstructedWitness st2 h = reconstructedWitness st1 h \<and>
          sint T \<le> int (length (receivedWitPages st2 h))"
        using Cons.IH [OF r rest full] .
      then show ?thesis using eq Cons.prems(1) by (simp add: st1_def)
    next
      case other: False
      define held where "held = receivedWitPages st (Hash page) @ [page]"
      show ?thesis
      proof (cases "int (length held) = sint (TotalPages page)")
        case False
        define st1 where "st1 =
          st\<lparr>receivedWitPages := (receivedWitPages st)(Hash page := held),
             witTotalPages := (witTotalPages st)(Hash page \<mapsto> TotalPages page)\<rparr>"
        obtain e2 st2 k2 where r: "receivePages env st1 pages = (e2, st2, k2)"
          by (metis prod_cases3)
        have full: "sint T \<le> int (length (receivedWitPages st1 h))"
          using Cons.prems(3) other by (simp add: st1_def)
        have eq: "receivePages env st (page # pages) = (e2, st2, Suc k2)"
          using \<open>Data page \<noteq> []\<close> False r by (simp add: Let_def st1_def held_def)
        have "reconstructedWitness st2 h = reconstructedWitness st1 h \<and>
            sint T \<le> int (length (receivedWitPages st2 h))"
          using Cons.IH [OF r rest full] .
        then show ?thesis using eq Cons.prems(1) other by (simp add: st1_def)
      next
        case True
        obtain res sortedPages where rw: "reconstructWitness env held = (res, sortedPages)"
          by (cases "reconstructWitness env held")
        show ?thesis
        proof (cases res)
          case (Inl e)
          have eq: "receivePages env st (page # pages) =
              (Some e, st\<lparr>receivedWitPages :=
                 (receivedWitPages st)(Hash page := sortedPages)\<rparr>, 0)"
            using \<open>Data page \<noteq> []\<close> True Inl rw
            by (simp add: Let_def held_def)
          show ?thesis using eq Cons.prems(1,3) other by auto
        next
          case (Inr wit)
          define st1 where "st1 =
            st\<lparr>receivedWitPages :=
                 (receivedWitPages st)(Hash page := sortedPages),
               reconstructedWitness := (reconstructedWitness st)(Hash page \<mapsto> wit),
               witTotalPages := (witTotalPages st)(Hash page \<mapsto> TotalPages page)\<rparr>"
          obtain e2 st2 k2 where r: "receivePages env st1 pages = (e2, st2, k2)"
            by (metis prod_cases3)
          have full: "sint T \<le> int (length (receivedWitPages st1 h))"
            using Cons.prems(3) other by (simp add: st1_def)
          have eq: "receivePages env st (page # pages) = (e2, st2, Suc k2)"
            using \<open>Data page \<noteq> []\<close> True Inr r rw
            by (simp add: Let_def st1_def held_def)
          have "reconstructedWitness st2 h = reconstructedWitness st1 h \<and>
              sint T \<le> int (length (receivedWitPages st2 h))"
            using Cons.IH [OF r rest full] .
          then show ?thesis using eq Cons.prems(1) other by (simp add: st1_def)
        qed
      qed
    qed
  qed
qed

lemma recordFailures_frame:
  "receivedWitPages (foldl recordFailure st rqs) = receivedWitPages st \<and>
   reconstructedWitness (foldl recordFailure st rqs) = reconstructedWitness st"
  by (induction rqs arbitrary: st) (simp_all add: recordFailure_def Let_def)

lemma receiveWitnessPage_overfull:
  assumes run: "receiveWitnessPage env st r = (err, st', k)"
    and reports: "reportsTotal h T (Response r)"
    and full: "sint T \<le> int (length (receivedWitPages st h))"
  shows "reconstructedWitness st' h = reconstructedWitness st h \<and>
         sint T \<le> int (length (receivedWitPages st' h))"
proof (cases "Response r")
  case OtherResponse
  then have "st' = foldl recordFailure st (Request r)"
    using run by (simp add: receiveWitnessPage_def)
  then show ?thesis using full by (simp add: recordFailures_frame)
next
  case (WitnessPacketRLPPacket pages)
  obtain e1 st1 k1 where inner: "receivePages env st pages = (e1, st1, k1)"
    by (metis prod_cases3)
  have all: "\<forall>page\<in>set pages. Hash page = h \<longrightarrow> TotalPages page = T"
    using reports WitnessPacketRLPPacket by (simp add: reportsTotal_def list_all_iff)
  have kept: "reconstructedWitness st1 h = reconstructedWitness st h \<and>
      sint T \<le> int (length (receivedWitPages st1 h))"
    using receivePages_overfull [OF inner all full] .
  have "st' = st1 \<or> st' = foldl recordFailure st1 (Request r)"
    using run WitnessPacketRLPPacket inner
    by (cases e1) (auto simp add: receiveWitnessPage_def)
  then show ?thesis using kept by (auto simp add: recordFailures_frame)
qed

lemma sendWitnessRequest_overfull:
  assumes send: "sendWitnessRequest env peer d h' page = (err, d1)"
    and peer: "\<And>n rq. reportsTotal h T (peer n rq)"
    and full: "overfull h T d"
  shows "overfull h T d1 \<and>
         reconstructedWitness (batchMaps d1) = reconstructedWitness (batchMaps d)"
  using send full peer
  by (auto simp add: sendWitnessRequest_def doWitnessRequest_def Let_def overfull_def
      split: if_splits)

lemma storeRetryCount_frame:
  "receivedWitPages (storeRetryCount st h page rc) = receivedWitPages st \<and>
   reconstructedWitness (storeRetryCount st h page rc) = reconstructedWitness st"
  by (simp add: storeRetryCount_def)

lemma passStep_overfull:
  assumes step: "passStep env peer hashes d pos = Some d1"
    and peer: "\<And>n rq. reportsTotal h T (peer n rq)"
    and full: "overfull h T d"
  shows "overfull h T d1 \<and>
    reconstructedWitness (batchMaps d1) = reconstructedWitness (batchMaps d)"
proof (cases "(env, peer, hashes, d, pos)" rule: passStep.cases)
  case (3 env' peer' hashes' d' h' page endPage rest)
  then have pos: "pos = Some (AtPage h' page endPage rest)" by simp
  obtain err d2 where send: "sendWitnessRequest env peer d h' page = (err, d2)"
    by (cases "sendWitnessRequest env peer d h' page")
  note kept = sendWitnessRequest_overfull [OF send peer full]
  show ?thesis
    using step full kept send unfolding pos
    by (cases err) (auto simp add: overfull_def split: if_splits)
next
  case (7 env' peer' hashes' d' h' page retryCount pages rest)
  then have pos: "pos = Some (AtRetry h' page retryCount pages rest)" by simp
  obtain err d2 where send: "sendWitnessRequest env peer d h' page = (err, d2)"
    by (cases "sendWitnessRequest env peer d h' page")
  note kept = sendWitnessRequest_overfull [OF send peer full]
  show ?thesis
    using step full kept send unfolding pos
    by (cases err) (auto simp add: overfull_def storeRetryCount_frame split: if_splits)
qed (use step full in \<open>auto simp add: overfull_def Let_def storeRetryCount_frame
      split: if_splits\<close>)

lemma adapterStep_overfull:
  assumes step: "adapterStep env d i = Some d1"
    and full: "overfull h T d"
  shows "overfull h T d1 \<and>
    reconstructedWitness (batchMaps d1) h = reconstructedWitness (batchMaps d) h"
proof -
  have i: "i < length (awaited d)" using step by (simp add: adapterStep_def split: if_splits)
  obtain err st1 k where run: "receiveWitnessPage env (batchMaps d) (awaited d ! i) = (err, st1, k)"
    by (metis prod_cases3)
  have reports: "reportsTotal h T (Response (awaited d ! i))"
    using full i by (simp add: overfull_def list_all_length)
  have held: "sint T \<le> int (length (receivedWitPages (batchMaps d) h))"
    using full by (simp add: overfull_def)
  note kept = receiveWitnessPage_overfull [OF run reports held]
  have rest: "list_all (\<lambda>r. reportsTotal h T (Response r))
      (take i (awaited d) @ drop (Suc i) (awaited d))"
    using full by (auto simp add: overfull_def list_all_iff dest: in_set_takeD in_set_dropD)
  show ?thesis
    using step run kept rest by (auto simp add: adapterStep_def overfull_def split: if_splits)
qed

lemma takeTurn_overfull:
  assumes peer: "\<And>n rq. reportsTotal h T (peer n rq)"
    and full: "overfull h T d"
  shows "overfull h T (takeTurn env peer hashes d t) \<and>
    reconstructedWitness (batchMaps (takeTurn env peer hashes d t)) h =
      reconstructedWitness (batchMaps d) h"
proof (cases t)
  case Builder
  show ?thesis
  proof (cases "passStep env peer hashes d (building d)")
    case None
    then show ?thesis using full Builder by (simp add: takeTurn_def)
  next
    case (Some d1)
    then show ?thesis
      using passStep_overfull [OF Some peer full] Builder by (simp add: takeTurn_def)
  qed
next
  case (Adapter i)
  show ?thesis
  proof (cases "adapterStep env d i")
    case None
    then show ?thesis using full Adapter by (simp add: takeTurn_def)
  next
    case (Some d1)
    then show ?thesis
      using adapterStep_overfull [OF Some full] Adapter by (simp add: takeTurn_def)
  qed
qed

lemma runTurns_overfull:
  assumes peer: "\<And>n rq. reportsTotal h T (peer n rq)"
  shows "overfull h T d \<Longrightarrow>
    overfull h T (runTurns env peer hashes d turns) \<and>
    reconstructedWitness (batchMaps (runTurns env peer hashes d turns)) h =
      reconstructedWitness (batchMaps d) h"
proof (induction turns arbitrary: d)
  case Nil
  then show ?case by (simp add: runTurns_def)
next
  case (Cons t turns)
  note one = takeTurn_overfull [where env = env and hashes = hashes and t = t, OF peer Cons.prems]
  have "runTurns env peer hashes d (t # turns) =
      runTurns env peer hashes (takeTurn env peer hashes d t) turns"
    by (simp add: runTurns_def)
  then show ?case using Cons.IH [of "takeTurn env peer hashes d t"] one by simp
qed

lemma failed_reconstruction_never_repaired:
  assumes peer: "\<And>n rq. reportsTotal (Hash page) (TotalPages page) (peer n rq)"
    and others: "list_all (\<lambda>r. reportsTotal (Hash page) (TotalPages page) (Response r)) (awaited d)"
    and turn: "i < length (awaited d)" "0 < witReqSem d"
    and response: "Response (awaited d ! i) = WitnessPacketRLPPacket [page]"
    and failed: "fst (receiveWitnessPage env (batchMaps d) (awaited d ! i)) \<noteq> None"
  shows "reconstructedWitness
           (batchMaps (runTurns env peer hashes d (Adapter i # turns))) (Hash page) =
         reconstructedWitness (batchMaps d) (Hash page)"
proof -
  obtain e1 st1 k1 where inner: "receivePages env (batchMaps d) [page] = (e1, st1, k1)"
    by (metis prod_cases3)
  have "e1 \<noteq> None"
    using failed response inner
    by (cases e1) (simp_all add: receiveWitnessPage_def del: receivePages.simps)
  then obtain err where e1: "e1 = Some err" by blast
  note kept = failed_reconstruction_keeps_page [OF inner [unfolded e1]]
  define d1 where "d1 = takeTurn env peer hashes d (Adapter i)"
  have maps: "batchMaps d1 = foldl recordFailure st1 (Request (awaited d ! i))"
    and rest: "awaited d1 = take i (awaited d) @ drop (Suc i) (awaited d)"
    using turn response inner e1
    by (simp_all add: d1_def takeTurn_def adapterStep_def receiveWitnessPage_def
        del: receivePages.simps)
  have "list_all (\<lambda>r. reportsTotal (Hash page) (TotalPages page) (Response r)) (awaited d1)"
    unfolding rest using others
    by (auto simp add: list_all_iff dest: in_set_takeD in_set_dropD)
  then have full: "overfull (Hash page) (TotalPages page) d1"
    using kept by (simp add: overfull_def maps recordFailures_frame)
  have same: "reconstructedWitness (batchMaps d1) = reconstructedWitness (batchMaps d)"
    using kept by (simp add: maps recordFailures_frame)
  have "runTurns env peer hashes d (Adapter i # turns) = runTurns env peer hashes d1 turns"
    by (simp add: runTurns_def d1_def)
  then show ?thesis
    using runTurns_overfull [where env = env and hashes = hashes and turns = turns,
        OF peer full] same by simp
qed

text \<open>
  A pass taken step by step, with permits to spare, leaves the maps as the pass run in
  one piece does: the sample batch after a failed probe.
\<close>

lemma pass_step_by_step:
  "witReqs (batchMaps (runTurns samplePeerEnv (failingPeer sampleChunks (\<lambda>p. 0)) [1]
      (initialDispatch
         \<lparr>batchMaps := applyEvents samplePeerEnv [1] emptyBatch [Pass, Handle failedProbe]\<rparr>)
      (replicate 16 Builder))) =
     witReqs (snd (buildWitnessRequests samplePeerEnv [1]
        (applyEvents samplePeerEnv [1] emptyBatch [Pass, Handle failedProbe]))) \<and>
   failedRequests (batchMaps (runTurns samplePeerEnv (failingPeer sampleChunks (\<lambda>p. 0)) [1]
      (initialDispatch
         \<lparr>batchMaps := applyEvents samplePeerEnv [1] emptyBatch [Pass, Handle failedProbe]\<rparr>)
      (replicate 16 Builder))) =
     failedRequests (snd (buildWitnessRequests samplePeerEnv [1]
        (applyEvents samplePeerEnv [1] emptyBatch [Pass, Handle failedProbe]))) \<and>
   witReqs (snd (buildWitnessRequests samplePeerEnv [1]
        (applyEvents samplePeerEnv [1] emptyBatch [Pass, Handle failedProbe]))) =
     [\<lparr>reqHash = 1, reqPage = 0\<rparr>, \<lparr>reqHash = 1, reqPage = 0\<rparr>] \<and>
   failedRequests (snd (buildWitnessRequests samplePeerEnv [1]
        (applyEvents samplePeerEnv [1] emptyBatch [Pass, Handle failedProbe]))) =
     [(1, [(0, \<lparr>FailCount = 1, ShouldRetryAgain = False\<rparr>)])]"
  by code_simp

subsection \<open>Whole batches with failing pages\<close>

text \<open>
  Responses of the wrong type leave no page behind. With the sample peer: a page that is
  answered twice with the wrong type and then in full, and a page answered three times
  with the wrong type; for page 1 and for the probe page 0.
\<close>

lemma page_fails_twice:
  "aggregate (RequestWitnesses samplePeerEnv [1]
      (Some (failingPeer sampleChunks (\<lambda>p. if p = 1 then 2 else 0))) (passesFirst 6)) 1 =
     Included sampleWitness \<and>
   map_option witReqs (delivered (RequestWitnesses samplePeerEnv [1]
      (Some (failingPeer sampleChunks (\<lambda>p. if p = 1 then 2 else 0))) (passesFirst 6))) =
     Some [\<lparr>reqHash = 1, reqPage = 0\<rparr>, \<lparr>reqHash = 1, reqPage = 1\<rparr>,
           \<lparr>reqHash = 1, reqPage = 2\<rparr>, \<lparr>reqHash = 1, reqPage = 1\<rparr>,
           \<lparr>reqHash = 1, reqPage = 1\<rparr>]"
  by code_simp

lemma page_fails_three_times:
  "aggregate (RequestWitnesses samplePeerEnv [1]
      (Some (failingPeer sampleChunks (\<lambda>p. if p = 1 then 3 else 0))) (passesFirst 6)) 1 =
     Missing \<and>
   map_option witReqs (delivered (RequestWitnesses samplePeerEnv [1]
      (Some (failingPeer sampleChunks (\<lambda>p. if p = 1 then 3 else 0))) (passesFirst 6))) =
     Some [\<lparr>reqHash = 1, reqPage = 0\<rparr>, \<lparr>reqHash = 1, reqPage = 1\<rparr>,
           \<lparr>reqHash = 1, reqPage = 2\<rparr>, \<lparr>reqHash = 1, reqPage = 1\<rparr>,
           \<lparr>reqHash = 1, reqPage = 1\<rparr>]"
  by code_simp

lemma probe_fails_twice:
  "aggregate (RequestWitnesses samplePeerEnv [1]
      (Some (failingPeer sampleChunks (\<lambda>p. if p = 0 then 2 else 0))) (passesFirst 6)) 1 =
     Included sampleWitness \<and>
   map_option witReqs (delivered (RequestWitnesses samplePeerEnv [1]
      (Some (failingPeer sampleChunks (\<lambda>p. if p = 0 then 2 else 0))) (passesFirst 6))) =
     Some [\<lparr>reqHash = 1, reqPage = 0\<rparr>, \<lparr>reqHash = 1, reqPage = 0\<rparr>,
           \<lparr>reqHash = 1, reqPage = 0\<rparr>, \<lparr>reqHash = 1, reqPage = 1\<rparr>,
           \<lparr>reqHash = 1, reqPage = 2\<rparr>]"
  by code_simp

lemma probe_fails_three_times:
  "aggregate (RequestWitnesses samplePeerEnv [1]
      (Some (failingPeer sampleChunks (\<lambda>p. if p = 0 then 3 else 0))) (passesFirst 6)) 1 =
     Missing \<and>
   map_option witReqs (delivered (RequestWitnesses samplePeerEnv [1]
      (Some (failingPeer sampleChunks (\<lambda>p. if p = 0 then 3 else 0))) (passesFirst 6))) =
     Some [\<lparr>reqHash = 1, reqPage = 0\<rparr>, \<lparr>reqHash = 1, reqPage = 0\<rparr>,
           \<lparr>reqHash = 1, reqPage = 0\<rparr>]"
  by code_simp

text \<open>
  A pass that waits at the semaphore: the sample witness in seven pages. After the probe
  the pass asks for pages 1 to 5 and waits with page 6 until a response has been handled.
\<close>

lemma seven_pages_in_flight:
  "witReqSem (runTurns samplePeerEnv (failingPeer sevenChunks (\<lambda>p. 0)) [1] initialDispatch
      (passesFirst 1 @ replicate 16 Builder)) = 5 \<and>
   map Request (awaited (runTurns samplePeerEnv (failingPeer sevenChunks (\<lambda>p. 0)) [1]
      initialDispatch (passesFirst 1 @ replicate 16 Builder))) =
     [[\<lparr>reqHash = 1, reqPage = 1\<rparr>], [\<lparr>reqHash = 1, reqPage = 2\<rparr>],
      [\<lparr>reqHash = 1, reqPage = 3\<rparr>], [\<lparr>reqHash = 1, reqPage = 4\<rparr>],
      [\<lparr>reqHash = 1, reqPage = 5\<rparr>]] \<and>
   building (runTurns samplePeerEnv (failingPeer sevenChunks (\<lambda>p. 0)) [1] initialDispatch
      (passesFirst 1 @ replicate 16 Builder)) = Some (AtPage 1 6 7 [])"
  by code_simp

lemma seven_pages_complete:
  "aggregate (RequestWitnesses samplePeerEnv [1] (Some (failingPeer sevenChunks (\<lambda>p. 0)))
      (passesFirst 8)) 1 = Included sampleWitness \<and>
   aggregate (RequestWitnesses samplePeerEnv [1] (Some (failingPeer sevenChunks (\<lambda>p. 0)))
      (responsesFirst 70)) 1 = Included sampleWitness"
  by code_simp

text \<open>
  Runs without a response: no \<open>witPeer\<close>; no hash to ask for, or a peer that refuses the
  first sub-request, where the adapter has handled no response when it builds its own;
  and a schedule that ends too early.
\<close>

lemma runs_without_response:
  "RequestWitnesses samplePeerEnv [1] None (passesFirst 6) = PeerNotFound \<and>
   RequestWitnesses samplePeerEnv [] (Some (failingPeer sampleChunks (\<lambda>p. 0)))
     (passesFirst 6) = AdapterPanics \<and>
   RequestWitnesses (samplePeerEnv\<lparr>peerAccepts := (\<lambda>rq. False)\<rparr>) [1]
     (Some (failingPeer sampleChunks (\<lambda>p. 0))) (passesFirst 6) = AdapterPanics \<and>
   RequestWitnesses samplePeerEnv [1] (Some (failingPeer sampleChunks (\<lambda>p. 0)))
     (passesFirst 2) = Undelivered"
  by code_simp

text \<open>
  C3. The ceiling on retries holds (\<open>retry_ceiling\<close>), but a page that fails twice and then
  succeeds does not always complete its witness. When the failure is a decoding error of
  \<open>reconstructWitness\<close>, the page that made it fail stays among the pages held for the
  hash; the retry adds the page served in full to them, so their number has passed
  \<open>TotalPages\<close> and the witness is never reconstructed
  (\<open>failed_reconstruction_never_repaired\<close>). In the sample batch the peer answers the first
  request for page 2 with the wrong type, the second with the page cut down to one byte,
  and the third in full. The response is sent after five sub-requests, page 2 has failed
  twice with no retry pending, four pages are held, and the witness is missing from the
  aggregate, under both sample schedules. With two answers of the wrong type instead,
  the witness is included.
\<close>

theorem cut_page_retry_never_completes:
  "cuttingPeer sampleChunks (\<lambda>p. if p = 2 then 1 else 0) (\<lambda>p. if p = 2 then 1 else 0) 0
     \<lparr>reqHash = 1, reqPage = 2\<rparr> = OtherResponse \<and>
   cuttingPeer sampleChunks (\<lambda>p. if p = 2 then 1 else 0) (\<lambda>p. if p = 2 then 1 else 0) 1
     \<lparr>reqHash = 1, reqPage = 2\<rparr> =
     WitnessPacketRLPPacket [\<lparr>Data = [0], Hash = 1, Page = 2, TotalPages = 3\<rparr>] \<and>
   cuttingPeer sampleChunks (\<lambda>p. if p = 2 then 1 else 0) (\<lambda>p. if p = 2 then 1 else 0) 2
     \<lparr>reqHash = 1, reqPage = 2\<rparr> =
     WitnessPacketRLPPacket [\<lparr>Data = [0, 0, 0], Hash = 1, Page = 2, TotalPages = 3\<rparr>] \<and>
   map_option witReqs (delivered (RequestWitnesses samplePeerEnv [1]
      (Some (cuttingPeer sampleChunks (\<lambda>p. if p = 2 then 1 else 0)
               (\<lambda>p. if p = 2 then 1 else 0))) (passesFirst 6))) =
     Some [\<lparr>reqHash = 1, reqPage = 0\<rparr>, \<lparr>reqHash = 1, reqPage = 1\<rparr>,
           \<lparr>reqHash = 1, reqPage = 2\<rparr>, \<lparr>reqHash = 1, reqPage = 2\<rparr>,
           \<lparr>reqHash = 1, reqPage = 2\<rparr>] \<and>
   map_option (\<lambda>st. lookupRetryCount (failedRequests st) 1 2)
     (delivered (RequestWitnesses samplePeerEnv [1]
        (Some (cuttingPeer sampleChunks (\<lambda>p. if p = 2 then 1 else 0)
                 (\<lambda>p. if p = 2 then 1 else 0))) (passesFirst 6))) =
     Some \<lparr>FailCount = 2, ShouldRetryAgain = False\<rparr> \<and>
   map_option (\<lambda>st. map Data (receivedWitPages st 1))
     (delivered (RequestWitnesses samplePeerEnv [1]
        (Some (cuttingPeer sampleChunks (\<lambda>p. if p = 2 then 1 else 0)
                 (\<lambda>p. if p = 2 then 1 else 0))) (passesFirst 6))) =
     Some [[0, 0, 6], [0, 0, 0], [0], [0, 0, 0]] \<and>
   aggregate (RequestWitnesses samplePeerEnv [1]
      (Some (cuttingPeer sampleChunks (\<lambda>p. if p = 2 then 1 else 0)
               (\<lambda>p. if p = 2 then 1 else 0))) (passesFirst 6)) 1 = Missing \<and>
   aggregate (RequestWitnesses samplePeerEnv [1]
      (Some (cuttingPeer sampleChunks (\<lambda>p. if p = 2 then 1 else 0)
               (\<lambda>p. if p = 2 then 1 else 0))) (responsesFirst 70)) 1 = Missing \<and>
   aggregate (RequestWitnesses samplePeerEnv [1]
      (Some (cuttingPeer sampleChunks (\<lambda>p. if p = 2 then 2 else 0) (\<lambda>p. 0)))
      (passesFirst 6)) 1 = Included sampleWitness"
  by code_simp


subsection \<open>Permits\<close>









subsection \<open>Closing the request\<close>

text \<open>
  C8 (amended). \<open>Close\<close> on a request whose cancel channel is open closes the channel,
  calls \<open>Close\<close> on the recorded sub-requests in order and returns the first error (or
  \<open>nil\<close>, all of them closed, when none fails). It is not idempotent: a second \<open>Close\<close>
  panics on the closed channel and changes nothing.
\<close>

theorem Close_once:
  assumes "\<not> cancelClosed r"
  shows "fst (Close witReqClose r) =
           Returned (fst (closeWitReqs witReqClose (reqWitReqs r) (closedWitReqs r))) \<and>
         cancelClosed (snd (Close witReqClose r)) \<and>
         reqWitReqs (snd (Close witReqClose r)) = reqWitReqs r \<and>
         (list_all (\<lambda>witReq. witReqClose witReq = None) (reqWitReqs r) \<longrightarrow>
            fst (Close witReqClose r) = Returned None \<and>
            closedWitReqs (snd (Close witReqClose r)) = closedWitReqs r @ reqWitReqs r) \<and>
         Close witReqClose (snd (Close witReqClose r)) = (Panicked, snd (Close witReqClose r))"
proof -
  have all: "list_all (\<lambda>witReq. witReqClose witReq = None) reqs \<Longrightarrow>
      closeWitReqs witReqClose reqs closed = (None, closed @ reqs)" for reqs closed
    by (induction reqs arbitrary: closed) simp_all
  show ?thesis
    using assms all [of "reqWitReqs r" "closedWitReqs r"]
    by (auto simp: Close_def split: prod.splits)
qed

text \<open>
  Counterexample to C8 as stated: on a fresh request the first \<open>Close\<close> returns \<open>nil\<close>;
  the second does not return, it panics.
\<close>

theorem second_Close_counterexample:
  "fst (Close (\<lambda>witReq :: nat. None)
          \<lparr>cancelClosed = False, reqWitReqs = [], closedWitReqs = []\<rparr>) = Returned None \<and>
   fst (Close (\<lambda>witReq :: nat. None)
          (snd (Close (\<lambda>witReq :: nat. None)
                  \<lparr>cancelClosed = False, reqWitReqs = [], closedWitReqs = []\<rparr>))) = Panicked"
  by (simp add: Close_def)

theorem Close_once_witness:
  "\<not> cancelClosed \<lparr>cancelClosed = False, reqWitReqs = [1, 2 :: nat], closedWitReqs = []\<rparr> \<and>
   fst (Close (\<lambda>witReq. if witReq = 2 then Some ErrPeerRequest else None)
          \<lparr>cancelClosed = False, reqWitReqs = [1, 2 :: nat], closedWitReqs = []\<rparr>) =
     Returned (Some ErrPeerRequest) \<and>
   cancelClosed (snd (Close (\<lambda>witReq. if witReq = 2 then Some ErrPeerRequest else None)
          \<lparr>cancelClosed = False, reqWitReqs = [1, 2 :: nat], closedWitReqs = []\<rparr>))"
  using Close_once [of "\<lparr>cancelClosed = False, reqWitReqs = [1, 2 :: nat], closedWitReqs = []\<rparr>"
      "\<lambda>witReq. if witReq = 2 then Some ErrPeerRequest else None"]
  by simp

end
